theory Spec2Isabelle
  imports Main "HOL-Library.Char_ord" "HOL-Library.List_Lexorder"
begin

section \<open>Python strings\<close>

text \<open>
  A Python \<open>str\<close> is modelled as a \<open>string\<close>, a list of characters; a character stands
  for the code point of the same number, so the model covers the code points below 256.
  The sets below are those of \<open>str.isspace\<close>, of \<open>str.lower\<close> and of the regular
  expression class \<open>\w\<close> on that range.
\<close>

definition is_space :: "char \<Rightarrow> bool" where
  "is_space c =
     (let n = (of_char c :: nat)
      in (9 \<le> n \<and> n \<le> 13) \<or> (28 \<le> n \<and> n \<le> 32) \<or> n = 133 \<or> n = 160)"

definition lower_char :: "char \<Rightarrow> char" where
  "lower_char c =
     (let n = (of_char c :: nat)
      in if (65 \<le> n \<and> n \<le> 90) \<or> (192 \<le> n \<and> n \<le> 222 \<and> n \<noteq> 215)
         then char_of (n + 32) else c)"

definition is_word :: "char \<Rightarrow> bool" where
  "is_word c =
     (let n = (of_char c :: nat)
      in (48 \<le> n \<and> n \<le> 57) \<or> (65 \<le> n \<and> n \<le> 90) \<or> n = 95 \<or> (97 \<le> n \<and> n \<le> 122)
         \<or> n = 170 \<or> n = 178 \<or> n = 179 \<or> n = 181 \<or> n = 185 \<or> n = 186
         \<or> (188 \<le> n \<and> n \<le> 190) \<or> (192 \<le> n \<and> n \<le> 214)
         \<or> (216 \<le> n \<and> n \<le> 246) \<or> (248 \<le> n \<and> n \<le> 255))"

text \<open>\<open>s.lower()\<close>\<close>

definition lower :: "string \<Rightarrow> string" where
  "lower s = map lower_char s"

text \<open>\<open>s.strip()\<close>: leading and trailing whitespace removed.\<close>

definition lstrip :: "string \<Rightarrow> string" where
  "lstrip s = dropWhile is_space s"

definition rstrip :: "string \<Rightarrow> string" where
  "rstrip s = rev (dropWhile is_space (rev s))"

definition strip :: "string \<Rightarrow> string" where
  "strip s = rstrip (lstrip s)"

text \<open>
  \<open>s.startswith(p)\<close>, and \<open>sub in s\<close>: \<open>sub\<close> occurs in \<open>s\<close> as a run of consecutive
  characters.
\<close>

fun starts_with :: "'a list \<Rightarrow> 'a list \<Rightarrow> bool" where
  "starts_with s [] = True"
| "starts_with [] (p # ps) = False"
| "starts_with (c # cs) (p # ps) = (c = p \<and> starts_with cs ps)"

fun contains :: "string \<Rightarrow> string \<Rightarrow> bool" where
  "contains [] sub = (sub = [])"
| "contains (c # cs) sub = (starts_with (c # cs) sub \<or> contains cs sub)"

text \<open>\<open>s.endswith(suffix)\<close>\<close>

definition ends_with :: "string \<Rightarrow> string \<Rightarrow> bool" where
  "ends_with s suf = starts_with (rev s) (rev suf)"

text \<open>
  \<open>s.split(d)\<close> for a separator of one character: the pieces between the occurrences of
  \<open>d\<close>, one more piece than there are occurrences.
\<close>

fun split_char :: "char \<Rightarrow> string \<Rightarrow> string list" where
  "split_char d [] = [[]]"
| "split_char d (c # cs) =
     (if c = d then [] # split_char d cs
      else (case split_char d cs of [] \<Rightarrow> [[c]] | w # ws \<Rightarrow> (c # w) # ws))"

text \<open>
  \<open>s.split(sep)\<close> for a separator of several characters, scanning from the left for
  occurrences that do not overlap. The source passes the constants \<open>' and '\<close> and
  \<open>','\<close> only.
\<close>

function split_str :: "string \<Rightarrow> string \<Rightarrow> string list" where
  "split_str sep [] = [[]]"
| "split_str sep (c # cs) =
     (if sep \<noteq> [] \<and> starts_with (c # cs) sep
      then [] # split_str sep (drop (length sep) (c # cs))
      else (case split_str sep cs of [] \<Rightarrow> [[c]] | w # ws \<Rightarrow> (c # w) # ws))"
  by pat_completeness auto
termination
  by (relation "measure (\<lambda>(sep, s). length s)") auto

text \<open>\<open>s.split()\<close>: the words between runs of whitespace.\<close>

fun split_ws :: "string \<Rightarrow> string list" where
  "split_ws [] = []"
| "split_ws (c # cs) =
     (if is_space c then split_ws cs
      else (case cs of
              [] \<Rightarrow> [[c]]
            | d # _ \<Rightarrow>
                if is_space d then [c] # split_ws cs
                else (case split_ws cs of [] \<Rightarrow> [[c]] | w # ws \<Rightarrow> (c # w) # ws)))"

text \<open>\<open>sep.join(xs)\<close>\<close>

fun join :: "string \<Rightarrow> string list \<Rightarrow> string" where
  "join sep [] = []"
| "join sep [x] = x"
| "join sep (x # y # ys) = x @ sep @ join sep (y # ys)"

text \<open>\<open>s.replace(old, new)\<close>\<close>

definition replace :: "string \<Rightarrow> string \<Rightarrow> string \<Rightarrow> string" where
  "replace old new s = join new (split_str old s)"

text \<open>\<open>str(n)\<close> for a natural number: its decimal digits.\<close>

fun str_nat :: "nat \<Rightarrow> string" where
  "str_nat n =
     (if n < 10 then [char_of (48 + n)]
      else str_nat (n div 10) @ [char_of (48 + n mod 10)])"

declare str_nat.simps [simp del]

text \<open>\<open>d.get(key, default)\<close> on a dictionary of strings.\<close>

definition get :: "(string \<rightharpoonup> string) \<Rightarrow> string \<Rightarrow> string \<Rightarrow> string" where
  "get d key dflt = (case d key of None \<Rightarrow> dflt | Some v \<Rightarrow> v)"

section \<open>The converter (convert\_zotero.py)\<close>

text \<open>A BibTeX entry as the parser delivers it: a dictionary from field names to strings.\<close>

type_synonym entry = "string \<rightharpoonup> string"

datatype error = IndexError | ValueError | OSError

subsection \<open>\<open>clean_filename\<close>\<close>

definition bad_chars :: "char list" where
  "bad_chars = [CHR ''<'', CHR ''>'', CHR '':'', CHR 0x22, CHR ''/'', CHR 0x5C, CHR ''|'',
                CHR ''?'', CHR ''*'']"

text \<open>\<open>re.sub(r'\s+', '_', text)\<close>: every maximal run of whitespace becomes one underscore.\<close>

function sub_spaces :: "string \<Rightarrow> string" where
  "sub_spaces [] = []"
| "sub_spaces (c # cs) =
     (if is_space c then CHR ''_'' # sub_spaces (dropWhile is_space cs)
      else c # sub_spaces cs)"
  by pat_completeness auto
termination
  by (relation "measure length") (auto simp: length_dropWhile_le less_Suc_eq_le)

definition clean_filename :: "string \<Rightarrow> string" where
  "clean_filename text =
     (if text = [] then ''untitled''
      else take 80
             (filter (\<lambda>c. is_word c \<or> is_space c \<or> c = CHR ''-'')
                (sub_spaces (filter (\<lambda>c. c \<notin> set bad_chars) text))))"

subsection \<open>\<open>parse_zotero_file_field\<close>\<close>

record file_info =
  filename :: string
  path :: string

text \<open>
  One \<open>filename:path:mimetype\<close> tuple. A part with a colon has at least two components;
  the first two are kept when both are non-empty after stripping.
\<close>

definition parse_part :: "string \<Rightarrow> file_info list" where
  "parse_part part =
     (if CHR '':'' \<in> set part
      then (case split_char (CHR '':'') part of
              c0 # c1 # _ \<Rightarrow>
                if strip c0 \<noteq> [] \<and> strip c1 \<noteq> []
                then [\<lparr>filename = strip c0, path = strip c1\<rparr>] else []
            | _ \<Rightarrow> [])
      else [])"

definition parse_zotero_file_field :: "string \<Rightarrow> file_info list" where
  "parse_zotero_file_field file_field =
     (if file_field = [] then []
      else concat (map parse_part (split_char (CHR '';'') file_field)))"

subsection \<open>Paths\<close>

text \<open>
  A \<open>pathlib\<close> path on a POSIX system: whether it is absolute, and its components. Parsing
  a string drops empty components and \<open>.\<close>; joining an absolute path replaces the left
  operand; \<open>relative_to\<close> raises \<open>ValueError\<close> unless the other path is a prefix.
\<close>

record ppath =
  absolute :: bool
  parts :: "string list"

definition parse_path :: "string \<Rightarrow> ppath" where
  "parse_path s =
     \<lparr>absolute = starts_with s ''/'',
      parts = filter (\<lambda>part. part \<noteq> [] \<and> part \<noteq> ''.'') (split_char (CHR ''/'') s)\<rparr>"

definition join_path :: "ppath \<Rightarrow> string \<Rightarrow> ppath" where
  "join_path p s =
     (if absolute (parse_path s) then parse_path s
      else \<lparr>absolute = absolute p, parts = parts p @ parts (parse_path s)\<rparr>)"

definition relative_to :: "ppath \<Rightarrow> ppath \<Rightarrow> error + ppath" where
  "relative_to p other =
     (if absolute p = absolute other \<and> starts_with (parts p) (parts other)
      then Inr \<lparr>absolute = False, parts = drop (length (parts other)) (parts p)\<rparr>
      else Inl ValueError)"

definition str_path :: "ppath \<Rightarrow> string" where
  "str_path p =
     (if absolute p then ''/'' @ join ''/'' (parts p)
      else if parts p = [] then ''.'' else join ''/'' (parts p))"

subsection \<open>\<open>find_pdf_in_files_folder\<close>\<close>

text \<open>
  The file system and \<open>pathlib\<close> are the environment of the functions. \<open>'p\<close> is the type
  of \<open>Path\<close> objects; \<open>dir_exists d\<close> is \<open>os.path.exists(d)\<close>, which does not raise,
  \<open>under d rel\<close> is \<open>Path(d) / rel\<close> and \<open>name p\<close> is \<open>p.name\<close>. The other calls can
  raise, and the environment gives the exception in that case: \<open>path_exists p\<close> is
  \<open>p.exists()\<close>, which raises \<open>OSError\<close> for a path that the system refuses, such as one
  with an over-long component; \<open>glob d pattern\<close> is the list of \<open>Path(d).glob(pattern)\<close>,
  or \<open>ValueError\<close> for a pattern that \<open>pathlib\<close> rejects, such as one from a file name
  with \<open>**\<close> inside; \<open>mkdir p\<close> is \<open>p.mkdir(parents=True, exist_ok=True)\<close> and
  \<open>copy2 src dst\<close> is \<open>shutil.copy2(src, dst)\<close>, each with the exception it raises, if
  any.
\<close>

record 'p file_system =
  dir_exists :: "string \<Rightarrow> bool"
  under :: "string \<Rightarrow> string \<Rightarrow> 'p"
  path_exists :: "'p \<Rightarrow> error + bool"
  glob :: "string \<Rightarrow> string \<Rightarrow> error + 'p list"
  name :: "'p \<Rightarrow> string"
  mkdir :: "ppath \<Rightarrow> error option"
  copy2 :: "'p \<Rightarrow> ppath \<Rightarrow> error option"

text \<open>
  Method 1, one parsed tuple: a tuple whose file name does not end in \<open>.pdf\<close> is passed
  over; for the others, the given path if it exists, else a search by file name.
\<close>

definition find_by_file_info :: "'p file_system \<Rightarrow> string \<Rightarrow> file_info \<Rightarrow> error + 'p list" where
  "find_by_file_info fs files_dir fi =
     (if ends_with (lower (filename fi)) ''.pdf''
      then (case path_exists fs (under fs files_dir (path fi)) of
              Inl err \<Rightarrow> Inl err
            | Inr found \<Rightarrow>
                if found then Inr [under fs files_dir (path fi)]
                else glob fs files_dir (''**/'' @ filename fi))
      else Inr [])"

text \<open>The loop \<open>for file_info in zotero_files\<close>; the first exception ends it.\<close>

fun method1_loop :: "'p file_system \<Rightarrow> string \<Rightarrow> file_info list \<Rightarrow> error + 'p list" where
  "method1_loop fs files_dir [] = Inr []"
| "method1_loop fs files_dir (fi # rest) =
     (case find_by_file_info fs files_dir fi of
        Inl err \<Rightarrow> Inl err
      | Inr found \<Rightarrow>
          (case method1_loop fs files_dir rest of
             Inl err \<Rightarrow> Inl err
           | Inr others \<Rightarrow> Inr (found @ others)))"

definition method1 :: "'p file_system \<Rightarrow> entry \<Rightarrow> string \<Rightarrow> error + 'p list" where
  "method1 fs e files_dir =
     (case e ''file'' of
        None \<Rightarrow> Inr []
      | Some file_field \<Rightarrow> method1_loop fs files_dir (parse_zotero_file_field file_field))"

text \<open>Method 2: every PDF whose name contains the entry's ID or one of its title words.\<close>

definition title_words :: "string \<Rightarrow> string list" where
  "title_words title = map lower (filter (\<lambda>word. length word > 3) (split_ws title))"

definition matches_entry :: "string \<Rightarrow> string \<Rightarrow> string \<Rightarrow> bool" where
  "matches_entry entry_id title filename_lower =
     ((entry_id \<noteq> [] \<and> contains filename_lower (lower entry_id))
      \<or> (title \<noteq> [] \<and> list_ex (\<lambda>word. contains filename_lower word) (take 3 (title_words title))))"

definition method2 :: "'p file_system \<Rightarrow> entry \<Rightarrow> string \<Rightarrow> error + 'p list" where
  "method2 fs e files_dir =
     (case glob fs files_dir ''**/*.pdf'' of
        Inl err \<Rightarrow> Inl err
      | Inr pdf_files \<Rightarrow>
          Inr (filter (\<lambda>pdf_file. matches_entry (get e ''ID'' []) (get e ''title'' [])
                                    (lower (name fs pdf_file)))
                 pdf_files))"

definition find_pdf_in_files_folder :: "'p file_system \<Rightarrow> entry \<Rightarrow> string \<Rightarrow> error + 'p list" where
  "find_pdf_in_files_folder fs e files_dir =
     (if files_dir = [] \<or> \<not> dir_exists fs files_dir then Inr []
      else (case method1 fs e files_dir of
              Inl err \<Rightarrow> Inl err
            | Inr found_pdfs \<Rightarrow>
                if found_pdfs = [] then method2 fs e files_dir else Inr found_pdfs))"

subsection \<open>Tag normalisation: \<open>extract_tags_from_entry\<close>\<close>

definition tag_fields :: "string list" where
  "tag_fields = [''keywords'', ''mendeley-tags'', ''tags'', ''annote'']"

definition delimiters :: "char list" where
  "delimiters = [CHR '';'', CHR '','', CHR 0x0A, CHR ''|'']"

text \<open>
  The inner \<open>for delimiter in ...: if delimiter in tag_text: ...; break\<close> with its
  \<open>else\<close> clause: the first delimiter of the list that occurs in the text splits it, and
  a text with none of them is one tag.
\<close>

fun split_field :: "char list \<Rightarrow> string \<Rightarrow> string list" where
  "split_field [] tag_text = (if strip tag_text \<noteq> [] then [strip tag_text] else [])"
| "split_field (d # ds) tag_text =
     (if d \<in> set tag_text
      then filter (\<lambda>tag. tag \<noteq> []) (map strip (split_char d tag_text))
      else split_field ds tag_text)"

text \<open>The outer loop over the tag fields, updating the set \<open>tags\<close>.\<close>

fun collect_tags :: "string list \<Rightarrow> entry \<Rightarrow> string set \<Rightarrow> string set" where
  "collect_tags [] e tags = tags"
| "collect_tags (field # rest) e tags =
     (case e field of
        None \<Rightarrow> collect_tags rest e tags
      | Some tag_text \<Rightarrow> collect_tags rest e (tags \<union> set (split_field delimiters tag_text)))"

definition extract_tags_from_entry :: "entry \<Rightarrow> string list" where
  "extract_tags_from_entry e = sorted_list_of_set (collect_tags tag_fields e {})"

subsection \<open>\<open>categorize_entry\<close>\<close>

definition categories :: "(string \<times> string) list" where
  "categories =
     [(''article'', ''journal_articles''),
      (''inproceedings'', ''conference_papers''),
      (''proceedings'', ''conference_papers''),
      (''book'', ''books''),
      (''incollection'', ''book_chapters''),
      (''inbook'', ''book_chapters''),
      (''techreport'', ''reports''),
      (''report'', ''reports''),
      (''phdthesis'', ''theses''),
      (''mastersthesis'', ''theses''),
      (''thesis'', ''theses''),
      (''patent'', ''patents''),
      (''misc'', ''miscellaneous''),
      (''unpublished'', ''preprints''),
      (''online'', ''web_resources''),
      (''webpage'', ''web_resources''),
      (''software'', ''software''),
      (''dataset'', ''datasets'')]"

definition categorize_entry :: "entry \<Rightarrow> string" where
  "categorize_entry e = get (map_of categories) (lower (get e ''ENTRYTYPE'' [])) ''uncategorized''"

subsection \<open>\<open>organize_pdf_files\<close>\<close>

text \<open>
  The effects of the function on the file system, in order: the directory made by
  \<open>target_dir.mkdir\<close> and the copies made by \<open>shutil.copy2\<close>. A call that raises makes
  no effect and ends the function with its exception.
\<close>

datatype 'p effect = Mkdir ppath | Copy 'p ppath

text \<open>
  The first author's last name, as lines 155 to 170 compute it. \<open>split()[-1]\<close> raises
  \<open>IndexError\<close> on a string without a word.
\<close>

definition first_author_name :: "entry \<Rightarrow> error + string" where
  "first_author_name e =
     (case e ''author'' of
        None \<Rightarrow> Inr []
      | Some author_text \<Rightarrow>
          (let first_author =
                 (if contains author_text '' and ''
                  then hd (split_str '' and '' author_text)
                  else hd (split_char (CHR '','') author_text))
           in if CHR '','' \<in> set first_author
              then Inr (clean_filename (strip (hd (split_char (CHR '','') first_author))))
              else (case split_ws first_author of
                      [] \<Rightarrow> Inl IndexError
                    | w # ws \<Rightarrow> Inr (clean_filename (last (w # ws))))))"

text \<open>
  The name of the file of index \<open>i\<close> among \<open>n\<close> files: a suffix counting from 1 when
  there are several files, none for a single file.
\<close>

definition target_name :: "string \<Rightarrow> nat \<Rightarrow> nat \<Rightarrow> string" where
  "target_name base_filename n i =
     (if n > 1 then base_filename @ ''_'' @ str_nat (i + 1) @ ''.pdf''
      else base_filename @ ''.pdf'')"

text \<open>
  The loop over \<open>enumerate(pdf_files)\<close>; \<open>n\<close> is \<open>len(pdf_files)\<close> and \<open>i\<close> the index
  of the first file of the list. An exception ends the loop with the effects so far.
\<close>

fun copy_files ::
  "'p file_system \<Rightarrow> ppath \<Rightarrow> ppath \<Rightarrow> string \<Rightarrow> nat \<Rightarrow> nat \<Rightarrow> 'p list
   \<Rightarrow> 'p effect list \<times> (error + string list)"
where
  "copy_files fs output_dir target_dir base_filename n i [] = ([], Inr [])"
| "copy_files fs output_dir target_dir base_filename n i (pdf_file # rest) =
     (let target_path = join_path target_dir (target_name base_filename n i)
      in case copy2 fs pdf_file target_path of
           Some err \<Rightarrow> ([], Inl err)
         | None \<Rightarrow>
             (case relative_to target_path output_dir of
                Inl err \<Rightarrow> ([Copy pdf_file target_path], Inl err)
              | Inr relative_path \<Rightarrow>
                  (case copy_files fs output_dir target_dir base_filename n (i + 1) rest of
                     (effects, Inl err) \<Rightarrow> (Copy pdf_file target_path # effects, Inl err)
                   | (effects, Inr organized_files) \<Rightarrow>
                       (Copy pdf_file target_path # effects,
                        Inr (str_path relative_path # organized_files)))))"

definition organize_pdf_files ::
  "'p file_system \<Rightarrow> 'p list \<Rightarrow> entry \<Rightarrow> string \<Rightarrow> 'p effect list \<times> (error + string list)"
where
  "organize_pdf_files fs pdf_files e output_dir =
     (if pdf_files = [] then ([], Inr [])
      else
        (let year = get e ''year'' ''unknown'';
             category = categorize_entry e;
             target_dir =
               join_path (join_path (join_path (parse_path output_dir) ''documents'') category) year
         in case mkdir fs target_dir of
              Some err \<Rightarrow> ([], Inl err)
            | None \<Rightarrow>
                (case first_author_name e of
                   Inl err \<Rightarrow> ([Mkdir target_dir], Inl err)
                 | Inr first_author \<Rightarrow>
                     (let title = clean_filename (get e ''title'' ''untitled'');
                          base_filename = first_author @ ''_'' @ year @ ''_'' @ title
                      in case copy_files fs (parse_path output_dir) target_dir base_filename
                                (length pdf_files) 0 pdf_files of
                           (effects, r) \<Rightarrow> (Mkdir target_dir # effects, r)))))"

subsection \<open>The entry loop of \<open>process_bibtex_export\<close>\<close>

text \<open>
  A document of the library. The dictionary of the source holds strings under most keys;
  they are kept in the map \<open>text_fields\<close> under the same keys, and the four keys with
  other values are fields of their own.
\<close>

record document =
  text_fields :: "string \<rightharpoonup> string"
  tags :: "string list"
  file_paths :: "string list"
  has_pdf :: bool
  pdf_count :: nat

definition known_keys :: "string list" where
  "known_keys =
     [''ID'', ''ENTRYTYPE'', ''title'', ''author'', ''year'', ''journal'', ''booktitle'',
      ''publisher'', ''volume'', ''number'', ''pages'', ''doi'', ''url'', ''isbn'', ''issn'',
      ''abstract'', ''note'', ''file'']"

text \<open>The keys \<open>extra_<key>\<close> for the non-empty fields of the entry outside \<open>known_keys\<close>.\<close>

definition extra_fields :: "entry \<Rightarrow> (string \<rightharpoonup> string)" where
  "extra_fields e =
     (\<lambda>k. if starts_with k ''extra_'' \<and> drop 6 k \<notin> set known_keys
          then (case e (drop 6 k) of
                  None \<Rightarrow> None
                | Some v \<Rightarrow> if v \<noteq> [] then Some v else None)
          else None)"

definition make_document :: "nat \<Rightarrow> entry \<Rightarrow> string list \<Rightarrow> string list \<Rightarrow> document" where
  "make_document i e entry_tags organized_files =
     \<lparr>text_fields =
        [''id'' \<mapsto> get e ''ID'' (''doc_'' @ str_nat i),
         ''title'' \<mapsto> get e ''title'' ''Untitled'',
         ''authors'' \<mapsto> replace '' and '' '', '' (get e ''author'' []),
         ''year'' \<mapsto> get e ''year'' [],
         ''journal'' \<mapsto> get e ''journal'' [],
         ''booktitle'' \<mapsto> get e ''booktitle'' [],
         ''publisher'' \<mapsto> get e ''publisher'' [],
         ''volume'' \<mapsto> get e ''volume'' [],
         ''number'' \<mapsto> get e ''number'' [],
         ''pages'' \<mapsto> get e ''pages'' [],
         ''doi'' \<mapsto> get e ''doi'' [],
         ''url'' \<mapsto> get e ''url'' [],
         ''isbn'' \<mapsto> get e ''isbn'' [],
         ''issn'' \<mapsto> get e ''issn'' [],
         ''abstract'' \<mapsto> get e ''abstract'' [],
         ''note'' \<mapsto> get e ''note'' [],
         ''category'' \<mapsto> categorize_entry e,
         ''entry_type'' \<mapsto> get e ''ENTRYTYPE'' []] ++ extra_fields e,
      tags = entry_tags,
      file_paths = organized_files,
      has_pdf = (length organized_files > 0),
      pdf_count = length organized_files\<rparr>"

text \<open>
  Lines 255 and 256 of the loop body: the files of the entry are searched and then
  organised; an exception of the search ends the step before any effect.
\<close>

definition find_and_organize ::
  "'p file_system \<Rightarrow> string \<Rightarrow> string \<Rightarrow> entry \<Rightarrow> 'p effect list \<times> (error + string list)"
where
  "find_and_organize fs files_dir output_dir e =
     (case find_pdf_in_files_folder fs e files_dir of
        Inl err \<Rightarrow> ([], Inl err)
      | Inr pdf_files \<Rightarrow> organize_pdf_files fs pdf_files e output_dir)"

text \<open>
  The loop \<open>for i, entry in enumerate(bib_database.entries)\<close>, from index \<open>i\<close> on. It
  returns the documents appended to the database, or the exception that ended the run,
  with the file-system effects up to there. The outcome of a call of the file system is
  the same throughout the run; the counters of the summary are not part of the model.
\<close>

fun process_entries ::
  "'p file_system \<Rightarrow> string \<Rightarrow> string \<Rightarrow> nat \<Rightarrow> entry list
   \<Rightarrow> 'p effect list \<times> (error + document list)"
where
  "process_entries fs files_dir output_dir i [] = ([], Inr [])"
| "process_entries fs files_dir output_dir i (e # rest) =
     (case find_and_organize fs files_dir output_dir e of
        (effects, Inl err) \<Rightarrow> (effects, Inl err)
      | (effects, Inr organized_files) \<Rightarrow>
          (case process_entries fs files_dir output_dir (i + 1) rest of
             (effects', Inl err) \<Rightarrow> (effects @ effects', Inl err)
           | (effects', Inr docs) \<Rightarrow>
               (effects @ effects',
                Inr (make_document i e (extract_tags_from_entry e) organized_files # docs))))"

definition doc_id :: "document \<Rightarrow> string" where
  "doc_id doc = get (text_fields doc) ''id'' []"

section \<open>The analysis (analysis.py)\<close>

definition KEYWORDS :: "string list" where
  "KEYWORDS =
     [''environment'', ''climate'', ''energy'', ''sustainability'',
      ''carbon'', ''emission'', ''renewable'', ''net zero'', ''green'']"

definition SEARCH_FIELDS :: "string list" where
  "SEARCH_FIELDS = [''title'', ''abstract'', ''note'', ''extra_keywords'']"

subsection \<open>Text extraction\<close>

text \<open>
  The libraries that read the files are the environment: \<open>pdf_reader p\<close> is what
  \<open>PdfReader(p)\<close> and \<open>extract_text\<close> on its pages deliver, the text of every page
  (\<open>None\<close> for a page without text) or the exception raised on the way, and
  \<open>html_reader p\<close> is the same for opening \<open>p\<close> and \<open>BeautifulSoup\<close>'s \<open>get_text\<close>.
  An exception is an instance of \<open>Exception\<close>, given by its message.
\<close>

datatype exn = Exception string

record readers =
  pdf_reader :: "string \<Rightarrow> exn + string option list"
  html_reader :: "string \<Rightarrow> exn + string"

text \<open>What the functions do besides returning: the calls of the readers and the printed lines.\<close>

datatype event = Read_pdf string | Read_html string | Print string

definition extract_text_from_pdf :: "readers \<Rightarrow> string \<Rightarrow> string \<times> event list" where
  "extract_text_from_pdf env pdf_path =
     (case pdf_reader env pdf_path of
        Inr pages \<Rightarrow>
          (join [CHR 0x0A] (map (\<lambda>page. case page of None \<Rightarrow> [] | Some t \<Rightarrow> t) pages),
           [Read_pdf pdf_path])
      | Inl (Exception msg) \<Rightarrow>
          ([], [Read_pdf pdf_path,
                Print (''[WARN] Could not read PDF: '' @ pdf_path @ '' ('' @ msg @ '')'')]))"

definition extract_text_from_html :: "readers \<Rightarrow> string \<Rightarrow> string \<times> event list" where
  "extract_text_from_html env html_path =
     (case html_reader env html_path of
        Inr text \<Rightarrow> (text, [Read_html html_path])
      | Inl (Exception msg) \<Rightarrow>
          ([], [Read_html html_path,
                Print (''[WARN] Could not read HTML: '' @ html_path @ '' ('' @ msg @ '')'')]))"

text \<open>\<open>os.path.join('AIPolicies_db', p)\<close> on a POSIX system.\<close>

definition db_path :: "string \<Rightarrow> string" where
  "db_path p = (if starts_with p ''/'' then p else ''AIPolicies_db/'' @ p)"

text \<open>The path that \<open>extract_fulltext_from_files\<close> opens, backslashes turned into slashes.\<close>

definition abs_path_of :: "string \<Rightarrow> string" where
  "abs_path_of rel_path = db_path (map (\<lambda>c. if c = CHR 0x5C then CHR ''/'' else c) rel_path)"

text \<open>The loop of \<open>extract_fulltext_from_files\<close>, with the text collected so far.\<close>

fun extract_fulltext_loop :: "readers \<Rightarrow> string \<Rightarrow> string list \<Rightarrow> string \<times> event list" where
  "extract_fulltext_loop env fulltext [] = (fulltext, [])"
| "extract_fulltext_loop env fulltext (rel_path # rest) =
     (let abs_path = abs_path_of rel_path
      in if ends_with (lower abs_path) ''.pdf''
         then (case extract_text_from_pdf env abs_path of
                 (text, events) \<Rightarrow>
                   (case extract_fulltext_loop env (fulltext @ text @ [CHR 0x0A]) rest of
                      (result, events') \<Rightarrow> (result, events @ events')))
         else if ends_with (lower abs_path) ''.html''
         then (case extract_text_from_html env abs_path of
                 (text, events) \<Rightarrow>
                   (case extract_fulltext_loop env (fulltext @ text @ [CHR 0x0A]) rest of
                      (result, events') \<Rightarrow> (result, events @ events')))
         else extract_fulltext_loop env fulltext rest)"

definition extract_fulltext_from_files :: "readers \<Rightarrow> string list \<Rightarrow> string \<times> event list" where
  "extract_fulltext_from_files env paths = extract_fulltext_loop env [] paths"

subsection \<open>Classification\<close>

text \<open>\<open>for kw in KEYWORDS: if kw in text: return True\<close>\<close>

definition has_keyword :: "string \<Rightarrow> bool" where
  "has_keyword text = list_ex (\<lambda>kw. contains text kw) KEYWORDS"

definition metadata_hit :: "document \<Rightarrow> bool" where
  "metadata_hit doc =
     list_ex (\<lambda>field. let v = get (text_fields doc) field []
                       in v \<noteq> [] \<and> has_keyword (lower v)) SEARCH_FIELDS"

definition document_references_environment :: "readers \<Rightarrow> document \<Rightarrow> bool \<times> event list" where
  "document_references_environment env doc =
     (if metadata_hit doc then (True, [])
      else if file_paths doc \<noteq> []
      then (case extract_fulltext_from_files env (file_paths doc) of
              (fulltext, events) \<Rightarrow> (has_keyword (lower fulltext), events))
      else (False, []))"

subsection \<open>Counting by tag\<close>

text \<open>A \<open>defaultdict(int)\<close>: a key is stored by the first \<open>+= 1\<close>.\<close>

type_synonym counts = "string \<rightharpoonup> nat"

definition incr :: "counts \<Rightarrow> string \<Rightarrow> counts" where
  "incr m tag = m(tag \<mapsto> (case m tag of None \<Rightarrow> 0 | Some n \<Rightarrow> n) + 1)"

fun group_stats_loop ::
  "readers \<Rightarrow> counts \<times> counts \<Rightarrow> document list \<Rightarrow> (counts \<times> counts) \<times> event list"
where
  "group_stats_loop env (tag_env_counts, tag_total_counts) [] =
     ((tag_env_counts, tag_total_counts), [])"
| "group_stats_loop env (tag_env_counts, tag_total_counts) (doc # rest) =
     (case document_references_environment env doc of
        (relevant, events) \<Rightarrow>
          (case group_stats_loop env
                  (if relevant then fold (\<lambda>tag m. incr m tag) (tags doc) tag_env_counts
                   else tag_env_counts,
                   fold (\<lambda>tag m. incr m tag) (tags doc) tag_total_counts) rest of
             (result, events') \<Rightarrow> (result, events @ events')))"

definition group_stats_by_tag :: "readers \<Rightarrow> document list \<Rightarrow> (counts \<times> counts) \<times> event list" where
  "group_stats_by_tag env documents = group_stats_loop env (Map.empty, Map.empty) documents"

text \<open>\<open>filter_tags\<close>: the entries of the filter set, and zero for its tags without an entry.\<close>

definition setdefault_all :: "counts \<Rightarrow> string set \<Rightarrow> counts" where
  "setdefault_all m filter_set =
     (\<lambda>tag. if tag \<in> filter_set then (case m tag of None \<Rightarrow> Some 0 | Some c \<Rightarrow> Some c) else m tag)"

definition filter_tags :: "counts \<Rightarrow> counts \<Rightarrow> string set \<Rightarrow> counts \<times> counts" where
  "filter_tags tag_env_counts tag_total_counts filter_set =
     (setdefault_all (tag_env_counts |` filter_set) filter_set,
      setdefault_all (tag_total_counts |` filter_set) filter_set)"

section \<open>Notions of the specification\<close>

text \<open>What every normalised tag is: non-empty, stripped, and free of the first delimiter.\<close>

definition is_tag :: "string \<Rightarrow> bool" where
  "is_tag x = (x \<noteq> [] \<and> strip x = x \<and> CHR '';'' \<notin> set x)"

text \<open>A keyword occurs in a text as a substring, case ignored.\<close>

definition occurs_ci :: "string \<Rightarrow> string \<Rightarrow> bool" where
  "occurs_ci kw text = contains (lower text) (lower kw)"

text \<open>Some keyword occurs in one of the metadata fields of the document.\<close>

definition metadata_match :: "document \<Rightarrow> bool" where
  "metadata_match doc =
     (\<exists>field\<in>set SEARCH_FIELDS. \<exists>kw\<in>set KEYWORDS. occurs_ci kw (get (text_fields doc) field []))"

text \<open>
  The text of one stored file, as the specification describes the extraction: the format
  is chosen by the extension of the file; a PDF file gives the texts of its pages joined
  by line breaks, a page without text counting as the empty string; an HTML file gives its
  text; a file that cannot be read gives the empty text; a file of any other extension is
  ignored.
\<close>

definition page_text :: "string option \<Rightarrow> string" where
  "page_text page = (case page of None \<Rightarrow> [] | Some t \<Rightarrow> t)"

definition file_text :: "readers \<Rightarrow> string \<Rightarrow> string option" where
  "file_text env file =
     (if ends_with (lower file) ''.pdf''
      then Some (case pdf_reader env file of
                   Inl failure \<Rightarrow> []
                 | Inr pages \<Rightarrow> join [CHR 0x0A] (map page_text pages))
      else if ends_with (lower file) ''.html''
      then Some (case html_reader env file of Inl failure \<Rightarrow> [] | Inr t \<Rightarrow> t)
      else None)"

text \<open>
  The full text of a list of associated files: the texts of the files that are not
  ignored, in the order of the list, each closed by a line break. A file of the library
  lies under the directory of the library.
\<close>

definition full_text :: "readers \<Rightarrow> string list \<Rightarrow> string" where
  "full_text env paths =
     concat (map (\<lambda>rel_path. case file_text env (abs_path_of rel_path) of
                                 None \<Rightarrow> []
                               | Some t \<Rightarrow> t @ [CHR 0x0A]) paths)"

text \<open>Some keyword occurs in the full text of the files of the document.\<close>

definition fulltext_match :: "readers \<Rightarrow> document \<Rightarrow> bool" where
  "fulltext_match env doc =
     (\<exists>kw\<in>set KEYWORDS. occurs_ci kw (full_text env (file_paths doc)))"

text \<open>Some keyword occurs in the text of one of the files of the document.\<close>

definition some_file_match :: "readers \<Rightarrow> document \<Rightarrow> bool" where
  "some_file_match env doc =
     (\<exists>rel_path\<in>set (file_paths doc). \<exists>kw\<in>set KEYWORDS.
        case file_text env (abs_path_of rel_path) of
          None \<Rightarrow> False
        | Some t \<Rightarrow> occurs_ci kw t)"

text \<open>The count of a tag, zero when it has no entry: \<open>counts.get(tag, 0)\<close>.\<close>

definition get_count :: "counts \<Rightarrow> string \<Rightarrow> nat" where
  "get_count m tag = (case m tag of None \<Rightarrow> 0 | Some n \<Rightarrow> n)"

text \<open>A path component that names one directory or file: not empty, not \<open>.\<close>, no slash.\<close>

definition plain_name :: "string \<Rightarrow> bool" where
  "plain_name s = (s \<noteq> [] \<and> s \<noteq> ''.'' \<and> CHR ''/'' \<notin> set s)"

text \<open>The number that a string of decimal digits denotes.\<close>

definition digits_value :: "string \<Rightarrow> nat" where
  "digits_value s = foldl (\<lambda>a c. 10 * a + (of_char c - 48)) 0 s"

text \<open>The identifier that the entry at position \<open>i\<close> is given.\<close>

definition assigned_id :: "nat \<Rightarrow> entry \<Rightarrow> string" where
  "assigned_id i e = (case e ''ID'' of None \<Rightarrow> ''doc_'' @ str_nat i | Some x \<Rightarrow> x)"

section \<open>Example inputs\<close>

text \<open>
  A file tree for the examples: the directory \<open>root\<close> with the listed files below it,
  paths as strings. A path with a component of more than 255 characters is refused with
  \<open>OSError\<close>. A pattern \<open>**/*.pdf\<close> matches the files whose name ends in \<open>.pdf\<close>, and a
  pattern \<open>**/name\<close> the files of that name; a name with \<open>**\<close> inside is rejected with
  \<open>ValueError\<close>. Directories can be made and files copied.
\<close>

definition tree_fs :: "string \<Rightarrow> string list \<Rightarrow> string file_system" where
  "tree_fs root files =
     \<lparr>dir_exists = (\<lambda>d. d = root),
      under = (\<lambda>d rel. d @ ''/'' @ rel),
      path_exists = (\<lambda>p. if list_ex (\<lambda>part. length part > 255) (split_char (CHR ''/'') p)
                          then Inl OSError
                          else Inr (p \<in> set (map (\<lambda>f. root @ ''/'' @ f) files))),
      glob = (\<lambda>d pattern.
                if contains (drop 3 pattern) ''**'' then Inl ValueError
                else if d = root
                then Inr (filter (\<lambda>p. if pattern = ''**/*.pdf'' then ends_with p ''.pdf''
                                       else last (split_char (CHR ''/'') p) = drop 3 pattern)
                            (map (\<lambda>f. root @ ''/'' @ f) files))
                else Inr []),
      name = (\<lambda>p. last (split_char (CHR ''/'') p)),
      mkdir = (\<lambda>p. None),
      copy2 = (\<lambda>src dst. None)\<rparr>"

definition paper_entry :: entry where
  "paper_entry =
     [''ID'' \<mapsto> ''smith2021'', ''ENTRYTYPE'' \<mapsto> ''article'', ''year'' \<mapsto> ''2021'',
      ''title'' \<mapsto> ''Net Zero Pathways'', ''author'' \<mapsto> ''Smith, John and Doe, Jane'',
      ''file'' \<mapsto> ''paper.pdf:files/ABC/paper.pdf:application/pdf'']"

definition snapshot_entry :: entry where
  "snapshot_entry =
     [''ID'' \<mapsto> ''doe2020'', ''ENTRYTYPE'' \<mapsto> ''online'', ''title'' \<mapsto> ''AI Act'',
      ''file'' \<mapsto> ''page.html:ABC/page.html:text/html'']"

definition blank_author_entry :: entry where
  "blank_author_entry =
     [''ID'' \<mapsto> ''anon2021'', ''ENTRYTYPE'' \<mapsto> ''article'', ''year'' \<mapsto> ''2021'',
      ''title'' \<mapsto> ''Net Zero Pathways'', ''author'' \<mapsto> []]"

definition untitled_entry :: entry where
  "untitled_entry = [''ENTRYTYPE'' \<mapsto> ''misc'', ''keywords'' \<mapsto> ''State; Midwest'']"

definition carbon_doc :: document where
  "carbon_doc =
     \<lparr>text_fields = [''id'' \<mapsto> ''a1'', ''title'' \<mapsto> ''A Carbon Tax for the States''],
      tags = [''State'', ''West''],
      file_paths = [''documents/reports/2020/a1.pdf''],
      has_pdf = True, pdf_count = 1\<rparr>"

definition plain_doc :: document where
  "plain_doc =
     \<lparr>text_fields = [''id'' \<mapsto> ''b2'', ''title'' \<mapsto> ''Procurement of AI systems''],
      tags = [''State''],
      file_paths = [],
      has_pdf = False, pdf_count = 0\<rparr>"

definition broken_readers :: readers where
  "broken_readers =
     \<lparr>pdf_reader = (\<lambda>p. Inl (Exception ''EOF marker not found'')),
      html_reader = (\<lambda>p. Inl (Exception ''No such file or directory''))\<rparr>"

definition sample_readers :: readers where
  "sample_readers =
     \<lparr>pdf_reader =
        (\<lambda>p. if p = ''AIPolicies_db/documents/reports/2021/c3.pdf''
              then Inr [Some ''Grid planning'', None, Some ''Targets for Renewable power'']
              else Inl (Exception ''EOF marker not found'')),
      html_reader = (\<lambda>p. Inr ''Procurement rules for agencies'')\<rparr>"

definition pdf_only_doc :: document where
  "pdf_only_doc =
     \<lparr>text_fields = [''id'' \<mapsto> ''c3'', ''title'' \<mapsto> ''Procurement of AI systems''],
      tags = [''State''],
      file_paths = [''documents/reports/2021/c3.pdf'', ''documents/reports/2021/c3.html''],
      has_pdf = True, pdf_count = 2\<rparr>"

definition html_only_doc :: document where
  "html_only_doc =
     \<lparr>text_fields = [''id'' \<mapsto> ''d4'', ''title'' \<mapsto> ''Procurement of AI systems''],
      tags = [''City''],
      file_paths = [''documents/reports/2021/d4.html'', ''documents/reports/2021/notes.txt''],
      has_pdf = True, pdf_count = 2\<rparr>"

section \<open>Properties of the string functions\<close>

lemma split_char_nonempty: "split_char d s \<noteq> []"
  by (induction s) (auto split: list.splits)

lemma split_char_no_delim: "x \<in> set (split_char d s) \<Longrightarrow> d \<notin> set x"
  by (induction s arbitrary: x) (auto split: if_splits list.splits)

lemma split_char_subset: "x \<in> set (split_char d s) \<Longrightarrow> set x \<subseteq> set s"
  by (induction s arbitrary: x) (fastforce split: if_splits list.splits)+

lemma split_char_absent: "d \<notin> set s \<Longrightarrow> split_char d s = [s]"
  by (induction s) auto

lemma split_char_append:
  "d \<notin> set x \<Longrightarrow> split_char d (x @ d # s) = x # split_char d s"
  by (induction x) auto

lemma split_char_join:
  "ts \<noteq> [] \<Longrightarrow> \<forall>t\<in>set ts. d \<notin> set t \<Longrightarrow> split_char d (join [d] ts) = ts"
  by (induction "[d]" ts rule: join.induct) (auto simp: split_char_absent split_char_append)

lemma set_strip: "set (strip s) \<subseteq> set s"
  unfolding strip_def lstrip_def rstrip_def
  by (metis set_dropWhileD set_rev subsetI)

lemma last_dropWhile: "dropWhile P xs \<noteq> [] \<Longrightarrow> last (dropWhile P xs) = last xs"
  by (induction xs) (auto split: if_splits)

lemma rstrip_fixed: "s = [] \<or> \<not> is_space (last s) \<Longrightarrow> rstrip s = s"
proof -
  assume a: "s = [] \<or> \<not> is_space (last s)"
  have "rev s = [] \<or> \<not> is_space (hd (rev s))"
    using a by (auto simp: hd_rev)
  then have "dropWhile is_space (rev s) = rev s"
    by (simp add: dropWhile_eq_self_iff)
  then show ?thesis by (simp add: rstrip_def)
qed

lemma lstrip_fixed: "s = [] \<or> \<not> is_space (hd s) \<Longrightarrow> lstrip s = s"
  by (auto simp: lstrip_def dropWhile_eq_self_iff)

lemma strip_fixed:
  "s = [] \<or> (\<not> is_space (hd s) \<and> \<not> is_space (last s)) \<Longrightarrow> strip s = s"
  using lstrip_fixed [of s] rstrip_fixed [of s] by (auto simp: strip_def)

lemma rstrip_last: "rstrip s \<noteq> [] \<Longrightarrow> \<not> is_space (last (rstrip s))"
proof -
  assume "rstrip s \<noteq> []"
  then have ne: "dropWhile is_space (rev s) \<noteq> []" by (simp add: rstrip_def)
  have "last (rstrip s) = hd (dropWhile is_space (rev s))"
    by (simp add: rstrip_def last_rev)
  with hd_dropWhile [OF ne] show ?thesis by simp
qed

lemma rstrip_hd: "rstrip s \<noteq> [] \<Longrightarrow> hd (rstrip s) = hd s"
proof -
  assume "rstrip s \<noteq> []"
  then have ne: "dropWhile is_space (rev s) \<noteq> []" by (simp add: rstrip_def)
  then have "s \<noteq> []" by auto
  have "hd (rstrip s) = last (dropWhile is_space (rev s))"
    by (simp add: rstrip_def hd_rev)
  also have "\<dots> = last (rev s)" by (rule last_dropWhile [OF ne])
  also have "\<dots> = hd s" using \<open>s \<noteq> []\<close> by (simp add: last_rev)
  finally show ?thesis .
qed

lemma rstrip_empty: "rstrip [] = []"
  by (simp add: rstrip_def)

lemma strip_ends:
  "strip s \<noteq> [] \<Longrightarrow> \<not> is_space (hd (strip s)) \<and> \<not> is_space (last (strip s))"
proof -
  assume ne: "strip s \<noteq> []"
  then have l: "lstrip s \<noteq> []" by (auto simp: strip_def rstrip_empty)
  then have "\<not> is_space (hd (lstrip s))"
    unfolding lstrip_def by (rule hd_dropWhile)
  moreover have "hd (strip s) = hd (lstrip s)"
    using ne rstrip_hd [of "lstrip s"] by (simp add: strip_def)
  moreover have "\<not> is_space (last (strip s))"
    using ne rstrip_last [of "lstrip s"] by (simp add: strip_def)
  ultimately show ?thesis by simp
qed

lemma strip_idem: "strip (strip s) = strip s"
  using strip_fixed [of "strip s"] strip_ends [of s] by blast

lemma split_field_tags:
  "x \<in> set (split_field ds t) \<Longrightarrow> x \<noteq> [] \<and> strip x = x"
  by (induction ds) (auto simp: strip_idem split: if_splits)

lemma split_field_subset:
  "x \<in> set (split_field ds t) \<Longrightarrow> set x \<subseteq> set t"
  using set_strip split_char_subset by (induction ds) (fastforce split: if_splits)+

lemma split_field_no_semicolon:
  assumes "x \<in> set (split_field delimiters t)" shows "CHR '';'' \<notin> set x"
proof (cases "CHR '';'' \<in> set t")
  case True
  then obtain y where "y \<in> set (split_char (CHR '';'') t)" "x = strip y"
    using assms by (auto simp: delimiters_def)
  then show ?thesis using split_char_no_delim set_strip by fastforce
next
  case False
  then show ?thesis using split_field_subset [OF assms] by auto
qed


section \<open>Properties of the tag normalisation\<close>

lemma collect_tags_inv:
  "finite acc \<Longrightarrow> \<forall>x\<in>acc. is_tag x \<Longrightarrow>
   finite (collect_tags flds e acc) \<and> (\<forall>x\<in>collect_tags flds e acc. is_tag x)"
proof (induction flds arbitrary: acc)
  case Nil
  then show ?case by simp
next
  case (Cons field flds)
  show ?case
  proof (cases "e field")
    case None
    then show ?thesis using Cons by simp
  next
    case (Some tag_text)
    let ?acc = "acc \<union> set (split_field delimiters tag_text)"
    have "finite ?acc" using Cons.prems by simp
    moreover have "\<forall>x\<in>?acc. is_tag x"
      using Cons.prems split_field_tags split_field_no_semicolon
      by (auto simp: is_tag_def)
    ultimately show ?thesis using Cons.IH [of ?acc] Some by simp
  qed
qed

lemma extract_tags_set:
  "set (extract_tags_from_entry e) = collect_tags tag_fields e {}"
  using collect_tags_inv [of "{}" tag_fields e]
  by (simp add: extract_tags_from_entry_def)

lemma extract_tags_sorted:
  "sorted (extract_tags_from_entry e) \<and> distinct (extract_tags_from_entry e)"
  by (simp add: extract_tags_from_entry_def)

lemma extract_tags_is_tag: "x \<in> set (extract_tags_from_entry e) \<Longrightarrow> is_tag x"
  using collect_tags_inv [of "{}" tag_fields e] by (simp add: extract_tags_set)

lemma collect_tags_single:
  "field \<in> set tag_fields \<Longrightarrow>
   collect_tags tag_fields [field \<mapsto> v] {} = set (split_field delimiters v)"
  by (auto simp: tag_fields_def)

lemma join_contains_sep: "length ts \<ge> 2 \<Longrightarrow> d \<in> set (join [d] ts)"
  by (induction "[d]" ts rule: join.induct) auto

lemma renormalise_many:
  assumes "length ts \<noteq> 1" "\<forall>x\<in>set ts. is_tag x"
  shows "split_field delimiters (join '';'' ts) = ts"
proof (cases ts)
  case Nil
  then show ?thesis by (simp add: delimiters_def strip_def lstrip_def rstrip_def)
next
  case (Cons a list)
  then have len: "length ts \<ge> 2" using assms(1) by (cases list) auto
  have sp: "split_char (CHR '';'') (join '';'' ts) = ts"
    using assms(2) Cons by (intro split_char_join) (auto simp: is_tag_def)
  have "map strip ts = ts" using assms(2) by (simp add: is_tag_def map_idI)
  moreover have "filter (\<lambda>tag. tag \<noteq> []) ts = ts" using assms(2) by (simp add: is_tag_def)
  ultimately show ?thesis
    using join_contains_sep [OF len, of "CHR '';''"] sp by (simp add: delimiters_def)
qed

lemma renormalise_one:
  assumes "is_tag t" "\<forall>d\<in>set delimiters. d \<notin> set t"
  shows "split_field delimiters (join '';'' [t]) = [t]"
  using assms by (simp add: delimiters_def is_tag_def)

lemma split_field_mixed:
  "split_field delimiters ''policy, climate;energy'' = [''policy, climate'', ''energy'']"
  by code_simp

lemma extract_tags_single:
  "field \<in> set tag_fields \<Longrightarrow>
   extract_tags_from_entry [field \<mapsto> v] = sorted_list_of_set (set (split_field delimiters v))"
  by (simp add: extract_tags_from_entry_def collect_tags_single)

lemma sorted_mixed:
  "sorted_list_of_set {''policy, climate'', ''energy''} = [''energy'', ''policy, climate'']"
  by code_simp

text \<open>
  C3 (as stated, refuted). The field value \<open>policy, climate;energy\<close> does not normalise to
  the tags \<open>policy\<close> and \<open>climate;energy\<close>: the semicolon comes first in the priority
  order of the delimiters, so the field is split on it.
\<close>

theorem mixed_delimiters_counterexample:
  "set (extract_tags_from_entry [''keywords'' \<mapsto> ''policy, climate;energy''])
   \<noteq> {''policy'', ''climate;energy''}"
proof -
  have "''keywords'' \<in> set tag_fields" by (simp add: tag_fields_def)
  then have "extract_tags_from_entry [''keywords'' \<mapsto> ''policy, climate;energy'']
             = [''energy'', ''policy, climate'']"
    by (simp add: extract_tags_single split_field_mixed sorted_mixed)
  then have "''energy'' \<in> set (extract_tags_from_entry [''keywords'' \<mapsto> ''policy, climate;energy''])"
    by simp
  moreover have "''energy'' \<notin> {''policy'', ''climate;energy''}" by simp
  ultimately show ?thesis by metis
qed

text \<open>
  C3 (amended). In any of the tag fields, the value \<open>policy, climate;energy\<close> normalises to
  exactly the tags \<open>energy\<close> and \<open>policy, climate\<close>: only the first delimiter of the
  priority order that occurs in the text, here the semicolon, is honoured, and the comma
  inside the first token is not split on.
\<close>

theorem mixed_delimiters_first_priority:
  "field \<in> set tag_fields \<Longrightarrow>
   extract_tags_from_entry [field \<mapsto> ''policy, climate;energy''] = [''energy'', ''policy, climate'']"
  by (simp add: extract_tags_single split_field_mixed sorted_mixed)

theorem mixed_delimiters_first_priority_witness:
  "''annote'' \<in> set tag_fields \<and>
   extract_tags_from_entry [''annote'' \<mapsto> ''policy, climate;energy''] = [''energy'', ''policy, climate'']"
proof -
  have f: "''annote'' \<in> set tag_fields" by (simp add: tag_fields_def)
  show ?thesis using f mixed_delimiters_first_priority [OF f] by simp
qed

text \<open>
  C8 (as stated, refuted). The field \<open>Energy, Climate;\<close> normalises to the single tag
  \<open>Energy, Climate\<close>. Presented back as a field (one tag joined with any separator is the
  tag itself), it is split on its comma and gives the two tags \<open>Climate\<close> and \<open>Energy\<close>.
\<close>

lemma split_field_trailing:
  "split_field delimiters ''Energy, Climate;'' = [''Energy, Climate'']"
  by code_simp

lemma split_field_comma:
  "split_field delimiters ''Energy, Climate'' = [''Energy'', ''Climate'']"
  by code_simp

lemma sorted_comma: "sorted_list_of_set {''Energy'', ''Climate''} = [''Climate'', ''Energy'']"
  by code_simp

theorem tag_normalisation_idempotent_counterexample:
  "extract_tags_from_entry
     [''keywords'' \<mapsto> join '';'' (extract_tags_from_entry [''keywords'' \<mapsto> ''Energy, Climate;''])]
   \<noteq> extract_tags_from_entry [''keywords'' \<mapsto> ''Energy, Climate;'']"
proof -
  have f: "''keywords'' \<in> set tag_fields" by (simp add: tag_fields_def)
  have one: "extract_tags_from_entry [''keywords'' \<mapsto> ''Energy, Climate;''] = [''Energy, Climate'']"
    using f by (simp add: extract_tags_single split_field_trailing)
  have two: "extract_tags_from_entry [''keywords'' \<mapsto> ''Energy, Climate''] = [''Climate'', ''Energy'']"
    using f by (simp add: extract_tags_single split_field_comma sorted_comma)
  show ?thesis by (simp add: one two)
qed

text \<open>
  C8 (amended). For every entry, joining its normalised tags with the semicolon, the first
  delimiter, and normalising that text as a tag field again yields the same tags, unless
  the entry has exactly one tag and that tag contains a delimiter.
\<close>

theorem tag_normalisation_idempotent:
  assumes "field \<in> set tag_fields"
    and "\<forall>t. extract_tags_from_entry e = [t] \<longrightarrow> (\<forall>d\<in>set delimiters. d \<notin> set t)"
  shows "extract_tags_from_entry [field \<mapsto> join '';'' (extract_tags_from_entry e)]
         = extract_tags_from_entry e"
proof -
  let ?ts = "extract_tags_from_entry e"
  have tags: "\<forall>x\<in>set ?ts. is_tag x" using extract_tags_is_tag by blast
  have "split_field delimiters (join '';'' ?ts) = ?ts"
  proof (cases "length ?ts = 1")
    case True
    then obtain t where t: "?ts = [t]" by (cases ?ts) auto
    then show ?thesis using renormalise_one [of t] tags assms(2) by simp
  next
    case False
    then show ?thesis using renormalise_many tags by blast
  qed
  then have "extract_tags_from_entry [field \<mapsto> join '';'' ?ts] = sorted_list_of_set (set ?ts)"
    using collect_tags_single [OF assms(1)] by (simp add: extract_tags_from_entry_def)
  also have "\<dots> = ?ts"
    using extract_tags_sorted [of e] by (simp add: sorted_list_of_set.idem_if_sorted_distinct)
  finally show ?thesis .
qed

theorem tag_normalisation_idempotent_witness:
  "''keywords'' \<in> set tag_fields
   \<and> extract_tags_from_entry [''tags'' \<mapsto> ''City | State,  Midwest''] = [''City | State'', ''Midwest'']
   \<and> extract_tags_from_entry
        [''keywords'' \<mapsto> join '';'' (extract_tags_from_entry [''tags'' \<mapsto> ''City | State,  Midwest''])]
      = [''City | State'', ''Midwest'']
   \<and> extract_tags_from_entry [''tags'' \<mapsto> '' Midwest ''] = [''Midwest'']
   \<and> list_all (\<lambda>d. d \<notin> set ''Midwest'') delimiters
   \<and> extract_tags_from_entry
        [''keywords'' \<mapsto> join '';'' (extract_tags_from_entry [''tags'' \<mapsto> '' Midwest ''])]
      = [''Midwest'']"
proof -
  have v: "extract_tags_from_entry [''tags'' \<mapsto> ''City | State,  Midwest'']
           = [''City | State'', ''Midwest'']"
    by code_simp
  have w: "extract_tags_from_entry [''tags'' \<mapsto> '' Midwest ''] = [''Midwest'']"
    by code_simp
  have d: "\<forall>d\<in>set delimiters. d \<notin> set ''Midwest''"
    by (simp add: delimiters_def)
  have f: "''keywords'' \<in> set tag_fields" by (simp add: tag_fields_def)
  show ?thesis
    using tag_normalisation_idempotent [OF f, of "[''tags'' \<mapsto> ''City | State,  Midwest'']"]
      tag_normalisation_idempotent [OF f, of "[''tags'' \<mapsto> '' Midwest '']"] f d
    by (simp add: v w list_all_iff)
qed

section \<open>Properties of the file association\<close>

lemma method1_loop_member:
  "fi \<in> set infos \<Longrightarrow> ends_with (lower (filename fi)) ''.pdf'' \<Longrightarrow>
   path_exists fs (under fs files_dir (path fi)) = Inr True \<Longrightarrow>
   method1_loop fs files_dir infos = Inr found \<Longrightarrow>
   under fs files_dir (path fi) \<in> set found"
proof (induction infos arbitrary: found)
  case Nil
  then show ?case by simp
next
  case (Cons a infos)
  from Cons.prems(4) obtain xs ys where
    a: "find_by_file_info fs files_dir a = Inr xs"
    and r: "method1_loop fs files_dir infos = Inr ys"
    and f: "found = xs @ ys"
    by (auto split: sum.splits)
  show ?case
  proof (cases "fi = a")
    case True
    then have "xs = [under fs files_dir (path fi)]"
      using a Cons.prems(2,3) by (simp add: find_by_file_info_def)
    then show ?thesis using f by simp
  next
    case False
    then have "fi \<in> set infos" using Cons.prems(1) by simp
    then have "under fs files_dir (path fi) \<in> set ys"
      using Cons.IH Cons.prems(2,3) r by blast
    then show ?thesis using f by simp
  qed
qed

lemma method1_loop_pdf_only:
  "method1_loop fs files_dir infos
   = method1_loop fs files_dir (filter (\<lambda>fi. ends_with (lower (filename fi)) ''.pdf'') infos)"
proof (induction infos)
  case Nil
  then show ?case by simp
next
  case (Cons a infos)
  show ?case
  proof (cases "ends_with (lower (filename a)) ''.pdf''")
    case True
    then show ?thesis by (simp, subst Cons.IH, simp)
  next
    case False
    then have "find_by_file_info fs files_dir a = Inr []"
      by (simp add: find_by_file_info_def)
    then have "method1_loop fs files_dir (a # infos) = method1_loop fs files_dir infos"
      by (simp split: sum.splits)
    then show ?thesis using Cons.IH False by simp
  qed
qed

lemma method1_loop_returns:
  assumes "\<forall>p. \<exists>b. path_exists fs p = Inr b"
    and "\<forall>pattern. \<exists>ps. glob fs files_dir pattern = Inr ps"
  shows "\<exists>found. method1_loop fs files_dir infos = Inr found"
proof (induction infos)
  case Nil
  then show ?case by simp
next
  case (Cons a infos)
  obtain b where b: "path_exists fs (under fs files_dir (path a)) = Inr b"
    using assms(1) by blast
  obtain ps where ps: "glob fs files_dir (''**/'' @ filename a) = Inr ps"
    using assms(2) by blast
  have "\<exists>xs. find_by_file_info fs files_dir a = Inr xs"
    using b ps by (simp add: find_by_file_info_def)
  then show ?case using Cons.IH by auto
qed

text \<open>The search returns whenever no call of \<open>exists\<close> and \<open>glob\<close> raises.\<close>

lemma find_pdf_in_files_folder_returns:
  assumes "\<forall>p. \<exists>b. path_exists fs p = Inr b"
    and "\<forall>pattern. \<exists>ps. glob fs files_dir pattern = Inr ps"
  shows "\<exists>found. find_pdf_in_files_folder fs e files_dir = Inr found"
proof -
  have "\<exists>xs. method1 fs e files_dir = Inr xs"
  proof (cases "e ''file''")
    case None
    then show ?thesis by (simp add: method1_def)
  next
    case (Some file_field)
    then show ?thesis
      using method1_loop_returns [OF assms, of "parse_zotero_file_field file_field"]
      by (simp add: method1_def)
  qed
  then obtain xs where m1: "method1 fs e files_dir = Inr xs" by blast
  obtain ps where "glob fs files_dir ''**/*.pdf'' = Inr ps"
    using assms(2) by blast
  then have "\<exists>ys. method2 fs e files_dir = Inr ys"
    by (simp add: method2_def)
  then show ?thesis using m1 by (auto simp: find_pdf_in_files_folder_def)
qed

lemma under_tree_fs: "under (tree_fs root files) d rel = d @ ''/'' @ rel"
  by (simp add: tree_fs_def)

lemma parse_snapshot:
  "parse_zotero_file_field ''page.html:ABC/page.html:text/html''
   = [\<lparr>filename = ''page.html'', path = ''ABC/page.html''\<rparr>]"
  by code_simp

lemma parse_paper:
  "parse_zotero_file_field ''paper.pdf:files/ABC/paper.pdf:application/pdf''
   = [\<lparr>filename = ''paper.pdf'', path = ''files/ABC/paper.pdf''\<rparr>]"
  by code_simp

lemma find_snapshot:
  "find_pdf_in_files_folder (tree_fs ''export/files'' [''ABC/page.html'']) snapshot_entry
     ''export/files'' = Inr []"
  unfolding snapshot_entry_def tree_fs_def by code_simp

lemma exists_snapshot:
  "path_exists (tree_fs ''export/files'' [''ABC/page.html''])
     (under (tree_fs ''export/files'' [''ABC/page.html'']) ''export/files'' ''ABC/page.html'')
   = Inr True"
  unfolding tree_fs_def by code_simp

lemma exists_paper:
  "path_exists (tree_fs ''export/files'' [''files/ABC/paper.pdf'', ''smith2021.pdf''])
     (under (tree_fs ''export/files'' [''files/ABC/paper.pdf'', ''smith2021.pdf''])
        ''export/files'' ''files/ABC/paper.pdf'')
   = Inr True"
  unfolding tree_fs_def by code_simp

lemma method1_paper:
  "method1 (tree_fs ''export/files'' [''files/ABC/paper.pdf'', ''smith2021.pdf'']) paper_entry
     ''export/files'' = Inr [''export/files/files/ABC/paper.pdf'']"
  unfolding paper_entry_def tree_fs_def by code_simp

lemma find_paper:
  "find_pdf_in_files_folder (tree_fs ''export/files'' [''files/ABC/paper.pdf'', ''smith2021.pdf''])
     paper_entry ''export/files'' = Inr [''export/files/files/ABC/paper.pdf'']"
  unfolding paper_entry_def tree_fs_def by code_simp

text \<open>
  An exception of the search: the first tuple of the file field has a file name with
  \<open>**\<close> inside and a path that does not exist, so the search by name is refused with
  \<open>ValueError\<close>, although the path of the second tuple exists.
\<close>

lemma find_rejected_pattern:
  "find_pdf_in_files_folder (tree_fs ''export/files'' [''ABC/paper.pdf''])
     [''file'' \<mapsto> ''a**b.pdf:XYZ/a**b.pdf:application/pdf;paper.pdf:ABC/paper.pdf:application/pdf'']
     ''export/files'' = Inl ValueError"
  unfolding tree_fs_def by code_simp

text \<open>
  C1 (as stated, refuted). The file field of the entry names the path \<open>ABC/page.html\<close>,
  which exists under the root, and the result of the search is empty: the attachment is
  not a PDF, so Method 1 skips it, and Method 2 looks at PDF files only.
\<close>

theorem exact_hit_counterexample:
  "snapshot_entry ''file'' = Some ''page.html:ABC/page.html:text/html''
   \<and> parse_zotero_file_field ''page.html:ABC/page.html:text/html''
       = [\<lparr>filename = ''page.html'', path = ''ABC/page.html''\<rparr>]
   \<and> path_exists (tree_fs ''export/files'' [''ABC/page.html''])
        (under (tree_fs ''export/files'' [''ABC/page.html'']) ''export/files'' ''ABC/page.html'')
      = Inr True
   \<and> find_pdf_in_files_folder (tree_fs ''export/files'' [''ABC/page.html''])
        snapshot_entry ''export/files'' = Inr []"
  using find_snapshot parse_snapshot exists_snapshot by (simp add: snapshot_entry_def)

text \<open>
  C1 (amended). For every entry, every existing root and every tuple of the file field:
  if the file name of the tuple ends in \<open>.pdf\<close>, case ignored, the path of the tuple
  exists under the root and \<open>find_pdf_in_files_folder\<close> returns a list, then that path is
  in the list. A tuple whose file name does not end in \<open>.pdf\<close> is skipped by Method 1: it
  contributes the empty list, and the result of Method 1 is that of the \<open>.pdf\<close> tuples
  alone.
\<close>

theorem exact_pdf_hit_included:
  assumes "files_dir \<noteq> []" and "dir_exists fs files_dir"
    and "e ''file'' = Some file_field"
    and "fi \<in> set (parse_zotero_file_field file_field)"
  shows "(ends_with (lower (filename fi)) ''.pdf''
          \<and> path_exists fs (under fs files_dir (path fi)) = Inr True
          \<and> find_pdf_in_files_folder fs e files_dir = Inr result
          \<longrightarrow> under fs files_dir (path fi) \<in> set result)
       \<and> (\<not> ends_with (lower (filename fi)) ''.pdf''
          \<longrightarrow> find_by_file_info fs files_dir fi = Inr [])
       \<and> method1 fs e files_dir
          = method1_loop fs files_dir
              (filter (\<lambda>info. ends_with (lower (filename info)) ''.pdf'')
                 (parse_zotero_file_field file_field))"
proof -
  have hit: "under fs files_dir (path fi) \<in> set result"
    if p: "ends_with (lower (filename fi)) ''.pdf''"
      and x: "path_exists fs (under fs files_dir (path fi)) = Inr True"
      and r: "find_pdf_in_files_folder fs e files_dir = Inr result"
  proof -
    from r assms(1,2) obtain found where
      m: "method1 fs e files_dir = Inr found"
      and c: "(if found = [] then method2 fs e files_dir else Inr found) = Inr result"
      by (auto simp: find_pdf_in_files_folder_def split: sum.splits)
    have "method1_loop fs files_dir (parse_zotero_file_field file_field) = Inr found"
      using m assms(3) by (simp add: method1_def)
    then have i: "under fs files_dir (path fi) \<in> set found"
      using method1_loop_member [OF assms(4) p x] by blast
    then have "found \<noteq> []" by auto
    then have "result = found" using c by simp
    then show ?thesis using i by simp
  qed
  have skip: "find_by_file_info fs files_dir fi = Inr []"
    if "\<not> ends_with (lower (filename fi)) ''.pdf''"
    using that by (simp add: find_by_file_info_def)
  have only: "method1 fs e files_dir
          = method1_loop fs files_dir
              (filter (\<lambda>fi. ends_with (lower (filename fi)) ''.pdf'')
                 (parse_zotero_file_field file_field))"
    using assms(3) method1_loop_pdf_only [of fs files_dir "parse_zotero_file_field file_field"]
    by (simp add: method1_def)
  show ?thesis using hit skip only by blast
qed

theorem exact_pdf_hit_included_witness:
  "find_pdf_in_files_folder
     (tree_fs ''export/files'' [''files/ABC/paper.pdf'', ''smith2021.pdf''])
     paper_entry ''export/files'' = Inr [''export/files/files/ABC/paper.pdf'']
   \<and> ''export/files/files/ABC/paper.pdf'' \<in> set [''export/files/files/ABC/paper.pdf'']
   \<and> find_by_file_info (tree_fs ''export/files'' [''ABC/page.html'']) ''export/files''
        \<lparr>filename = ''page.html'', path = ''ABC/page.html''\<rparr> = Inr []"
proof -
  let ?fs = "tree_fs ''export/files'' [''files/ABC/paper.pdf'', ''smith2021.pdf'']"
  let ?fi = "\<lparr>filename = ''paper.pdf'', path = ''files/ABC/paper.pdf''\<rparr>"
  let ?gs = "tree_fs ''export/files'' [''ABC/page.html'']"
  let ?gi = "\<lparr>filename = ''page.html'', path = ''ABC/page.html''\<rparr>"
  have 1: "''export/files'' \<noteq> []" by simp
  have 2: "dir_exists ?fs ''export/files''" by (simp add: tree_fs_def)
  have 3: "paper_entry ''file'' = Some ''paper.pdf:files/ABC/paper.pdf:application/pdf''"
    by (simp add: paper_entry_def)
  have 4: "?fi \<in> set (parse_zotero_file_field ''paper.pdf:files/ABC/paper.pdf:application/pdf'')"
    by (simp add: parse_paper)
  have 5: "ends_with (lower (filename ?fi)) ''.pdf''" by code_simp
  have 6: "path_exists ?fs (under ?fs ''export/files'' (path ?fi)) = Inr True"
    using exists_paper by simp
  have 7: "find_pdf_in_files_folder ?fs paper_entry ''export/files''
           = Inr [''export/files/files/ABC/paper.pdf'']"
    by (rule find_paper)
  have "under ?fs ''export/files'' (path ?fi) \<in> set [''export/files/files/ABC/paper.pdf'']"
    using exact_pdf_hit_included
            [where fs = ?fs and fi = ?fi and e = paper_entry and files_dir = "''export/files''"
               and file_field = "''paper.pdf:files/ABC/paper.pdf:application/pdf''"
               and result = "[''export/files/files/ABC/paper.pdf'']"]
          1 2 3 4 5 6 7
    by blast
  then have a: "''export/files/files/ABC/paper.pdf'' \<in> set [''export/files/files/ABC/paper.pdf'']"
    by (simp add: under_tree_fs)
  have g2: "dir_exists ?gs ''export/files''" by (simp add: tree_fs_def)
  have g3: "snapshot_entry ''file'' = Some ''page.html:ABC/page.html:text/html''"
    by (simp add: snapshot_entry_def)
  have g4: "?gi \<in> set (parse_zotero_file_field ''page.html:ABC/page.html:text/html'')"
    by (simp add: parse_snapshot)
  have g5: "\<not> ends_with (lower (filename ?gi)) ''.pdf''" by code_simp
  have b: "find_by_file_info ?gs ''export/files'' ?gi = Inr []"
    using exact_pdf_hit_included
            [where fs = ?gs and fi = ?gi and e = snapshot_entry and files_dir = "''export/files''"
               and file_field = "''page.html:ABC/page.html:text/html''"]
          1 g2 g3 g4 g5
    by blast
  show ?thesis using 7 a b by (intro conjI)
qed

text \<open>
  C4. Under an existing root, whenever Method 1 (Strategy A) finds at least one file,
  the result of \<open>find_pdf_in_files_folder\<close> is exactly the list that Method 1 found:
  Method 2 (Strategy B) contributes nothing.
\<close>

theorem strategy_a_precedence:
  assumes "files_dir \<noteq> []" and "dir_exists fs files_dir"
    and "method1 fs e files_dir = Inr found_pdfs" and "found_pdfs \<noteq> []"
  shows "find_pdf_in_files_folder fs e files_dir = Inr found_pdfs"
  using assms by (simp add: find_pdf_in_files_folder_def)

theorem strategy_a_precedence_witness:
  "find_pdf_in_files_folder
     (tree_fs ''export/files'' [''files/ABC/paper.pdf'', ''smith2021.pdf''])
     paper_entry ''export/files''
   = Inr [''export/files/files/ABC/paper.pdf'']"
proof -
  let ?fs = "tree_fs ''export/files'' [''files/ABC/paper.pdf'', ''smith2021.pdf'']"
  have 1: "''export/files'' \<noteq> []" by simp
  have 2: "dir_exists ?fs ''export/files''" by (simp add: tree_fs_def)
  have 3: "method1 ?fs paper_entry ''export/files'' = Inr [''export/files/files/ABC/paper.pdf'']"
    by (rule method1_paper)
  have 4: "[''export/files/files/ABC/paper.pdf''] \<noteq> []" by simp
  show ?thesis
    using 1 2 3 4 by (rule strategy_a_precedence)
qed

section \<open>Properties of the file organisation\<close>

text \<open>
  C10. For an empty list of associated files, \<open>organize_pdf_files\<close> returns the empty
  list and has no effect on the file system: no directory is made, no file is copied.
\<close>

theorem organize_nothing: "organize_pdf_files fs [] e output_dir = ([], Inr [])"
  by (simp add: organize_pdf_files_def)

lemma parse_plain_name:
  "plain_name s \<Longrightarrow> parse_path s = \<lparr>absolute = False, parts = [s]\<rparr>"
  by (cases s) (auto simp: plain_name_def parse_path_def split_char_absent)

lemma join_plain_name:
  "plain_name s \<Longrightarrow> join_path p s = \<lparr>absolute = absolute p, parts = parts p @ [s]\<rparr>"
  by (simp add: join_path_def parse_plain_name)

lemma starts_with_append: "starts_with (xs @ ys) xs"
  by (induction xs) auto

lemma relative_to_below:
  "relative_to \<lparr>absolute = absolute p, parts = parts p @ ys\<rparr> p
   = Inr \<lparr>absolute = False, parts = ys\<rparr>"
  by (simp add: relative_to_def starts_with_append)

lemma clean_filename_no_slash: "CHR ''/'' \<notin> set (clean_filename t)"
proof
  assume a: "CHR ''/'' \<in> set (clean_filename t)"
  have n: "\<not> (is_word (CHR ''/'') \<or> is_space (CHR ''/'') \<or> CHR ''/'' = CHR ''-'')"
    by (simp add: is_word_def is_space_def)
  show False
  proof (cases "t = []")
    case True
    then show False using a by (simp add: clean_filename_def)
  next
    case False
    then have "CHR ''/'' \<in> set (filter (\<lambda>c. is_word c \<or> is_space c \<or> c = CHR ''-'')
                                  (sub_spaces (filter (\<lambda>c. c \<notin> set bad_chars) t)))"
      using a by (auto simp: clean_filename_def dest: in_set_takeD)
    then show False using n by simp
  qed
qed

lemma str_nat_no_slash: "CHR ''/'' \<notin> set (str_nat n)"
proof (induction n rule: str_nat.induct)
  case (1 n)
  have d: "char_of (48 + k) \<noteq> CHR ''/''" if "k < 10" for k :: nat
  proof
    assume "char_of (48 + k) = CHR ''/''"
    then have "(of_char (char_of (48 + k)) :: nat) = of_char (CHR ''/'')" by simp
    then show False using that by (simp add: of_char_of)
  qed
  show ?case
  proof (cases "n < 10")
    case True
    then show ?thesis using d [of n] by (subst str_nat.simps) auto
  next
    case False
    have "n mod 10 < 10" by simp
    then show ?thesis using False "1.IH" d [of "n mod 10"]
      by (subst str_nat.simps) auto
  qed
qed

lemma categorize_entry_plain: "plain_name (categorize_entry e)"
proof -
  have "plain_name v" if "map_of categories k = Some v" for k v
    using that by (auto simp: categories_def plain_name_def split: if_splits)
  then show ?thesis
    by (auto simp: categorize_entry_def get_def plain_name_def split: option.splits)
qed

lemma target_name_plain:
  assumes "CHR ''/'' \<notin> set base"
  shows "plain_name (target_name base n i)"
  using assms str_nat_no_slash [of "i + 1"]
  by (auto simp: plain_name_def target_name_def)

lemma copy_files_paths:
  assumes "CHR ''/'' \<notin> set base" and "\<forall>src dst. copy2 fs src dst = None"
  shows "snd (copy_files fs out \<lparr>absolute = absolute out, parts = parts out @ ds\<rparr> base n i files)
         = Inr (map (\<lambda>k. str_path \<lparr>absolute = False, parts = ds @ [target_name base n k]\<rparr>)
                  [i..<i + length files])"
proof (induction files arbitrary: i)
  case Nil
  then show ?case by simp
next
  case (Cons f files)
  let ?t = "\<lparr>absolute = absolute out, parts = parts out @ ds\<rparr>"
  have j: "join_path ?t (target_name base n i)
           = \<lparr>absolute = absolute out, parts = parts out @ (ds @ [target_name base n i])\<rparr>"
    using target_name_plain [OF assms(1)] by (simp add: join_plain_name)
  have r: "relative_to (join_path ?t (target_name base n i)) out
           = Inr \<lparr>absolute = False, parts = ds @ [target_name base n i]\<rparr>"
    unfolding j by (rule relative_to_below)
  have u: "[i..<Suc (i + length files)] = i # [Suc i..<Suc (i + length files)]"
    by (rule upt_conv_Cons) simp
  obtain effs res where c: "copy_files fs out ?t base n (i + 1) files = (effs, res)"
    by (cases "copy_files fs out ?t base n (i + 1) files")
  have "res = Inr (map (\<lambda>k. str_path \<lparr>absolute = False, parts = ds @ [target_name base n k]\<rparr>)
                  [i + 1..<i + 1 + length files])"
    using Cons.IH [of "i + 1"] c by simp
  then show ?case
    using r c assms(2) by (simp add: u Let_def del: upt_Suc)
qed

text \<open>
  The layout of \<open>organize_pdf_files\<close>: when the directory can be made and the files
  copied, for an entry whose first author has a last name (or that has no author field)
  and whose year names one directory, the files get the paths \<open>documents/<category>/<year>/<base>.pdf\<close>, with the suffixes
  \<open>_1\<close>, \<open>_2\<close>, ... before \<open>.pdf\<close> when there are several.
\<close>

lemma organize_pdf_files_layout:
  assumes "pdf_files \<noteq> []"
    and "first_author_name e = Inr first_author"
    and "plain_name (get e ''year'' ''unknown'')"
    and "\<forall>p. mkdir fs p = None" and "\<forall>src dst. copy2 fs src dst = None"
  shows "snd (organize_pdf_files fs pdf_files e output_dir)
         = Inr (map (\<lambda>k. ''documents/'' @ categorize_entry e @ ''/'' @ get e ''year'' ''unknown'' @ ''/''
                          @ target_name (first_author @ ''_'' @ get e ''year'' ''unknown'' @ ''_''
                                         @ clean_filename (get e ''title'' ''untitled''))
                              (length pdf_files) k)
                  [0..<length pdf_files])"
proof -
  let ?year = "get e ''year'' ''unknown''"
  let ?base = "first_author @ ''_'' @ ?year @ ''_'' @ clean_filename (get e ''title'' ''untitled'')"
  let ?out = "parse_path output_dir"
  let ?ds = "[''documents'', categorize_entry e, ?year]"
  have fa: "CHR ''/'' \<notin> set first_author"
    using assms(2) clean_filename_no_slash
    by (auto simp: first_author_name_def Let_def split: option.splits if_splits list.splits)
  have base: "CHR ''/'' \<notin> set ?base"
    using fa assms(3) clean_filename_no_slash by (auto simp: plain_name_def)
  have d: "plain_name ''documents''" by (simp add: plain_name_def)
  have t: "join_path (join_path (join_path ?out ''documents'') (categorize_entry e)) ?year
           = \<lparr>absolute = absolute ?out, parts = parts ?out @ ?ds\<rparr>"
    using d categorize_entry_plain [of e] assms(3) by (simp add: join_plain_name)
  have s: "str_path \<lparr>absolute = False, parts = ?ds @ [x]\<rparr>
           = ''documents/'' @ categorize_entry e @ ''/'' @ ?year @ ''/'' @ x" for x
    by (simp add: str_path_def)
  obtain effs res where c: "copy_files fs ?out \<lparr>absolute = absolute ?out, parts = parts ?out @ ?ds\<rparr>
                              ?base (length pdf_files) 0 pdf_files = (effs, res)"
    by (cases "copy_files fs ?out \<lparr>absolute = absolute ?out, parts = parts ?out @ ?ds\<rparr>
                 ?base (length pdf_files) 0 pdf_files")
  have "res = Inr (map (\<lambda>k. str_path \<lparr>absolute = False,
                                 parts = ?ds @ [target_name ?base (length pdf_files) k]\<rparr>)
                     [0..<0 + length pdf_files])"
    using copy_files_paths [OF base assms(5), of ?out ?ds "length pdf_files" 0 pdf_files] c
    by simp
  then have "res = Inr (map (\<lambda>k. ''documents/'' @ categorize_entry e @ ''/'' @ ?year @ ''/''
                                   @ target_name ?base (length pdf_files) k)
                          [0..<length pdf_files])"
    by (simp only: s add_0)
  then show ?thesis
    using assms(1,2,4) c by (simp add: organize_pdf_files_def Let_def t)
qed

text \<open>
  The example of the specification: the entry with the file field
  \<open>paper.pdf:files/ABC/paper.pdf:application/pdf\<close>, type \<open>article\<close>, year 2021 and
  title \<open>Net Zero Pathways\<close>, its file found below the root, gets the one path
  \<open>documents/journal_articles/2021/Smith_2021_Net_Zero_Pathways.pdf\<close> and \<open>has_pdf\<close>.
\<close>

lemma organize_example:
  "map_sum id (map (\<lambda>doc. (file_paths doc, has_pdf doc, pdf_count doc)))
     (snd (process_entries (tree_fs ''export/files'' [''ABC/paper.pdf'']) ''export/files''
             ''out'' 0 [paper_entry]))
   = Inr [([''documents/journal_articles/2021/Smith_2021_Net_Zero_Pathways.pdf''], True, 1)]"
  unfolding paper_entry_def tree_fs_def by code_simp

lemma organize_two_files:
  "snd (organize_pdf_files (tree_fs ''export/files'' []) [''a.pdf'', ''b.pdf''] paper_entry ''out'')
   = Inr [''documents/journal_articles/2021/Smith_2021_Net_Zero_Pathways_1.pdf'',
          ''documents/journal_articles/2021/Smith_2021_Net_Zero_Pathways_2.pdf'']"
  unfolding paper_entry_def tree_fs_def by code_simp

text \<open>
  A copy that raises: with the year \<open>2021/22\<close> the name of the target has a slash, so
  the target lies in a directory that \<open>mkdir\<close> has not made. On a file system that
  refuses this copy the function ends with its exception after making the directory of the
  year.
\<close>

lemma organize_copy_refused:
  "organize_pdf_files
     ((tree_fs ''export/files'' [''ABC/paper.pdf''])
        \<lparr>copy2 := \<lambda>src dst. if length (parts dst) = 5 then None else Some OSError\<rparr>)
     [''export/files/ABC/paper.pdf''] (paper_entry(''year'' \<mapsto> ''2021/22'')) ''out''
   = ([Mkdir \<lparr>absolute = False,
               parts = [''out'', ''documents'', ''journal_articles'', ''2021'', ''22'']\<rparr>],
      Inl OSError)"
  unfolding paper_entry_def tree_fs_def by code_simp

text \<open>
  C5 at an entry whose author field is the empty string. The function makes the target
  directory and then raises \<open>IndexError\<close> at \<open>first_author.split()[-1]\<close>: the file is not
  copied and no path is returned.
\<close>

theorem organize_blank_author:
  "organize_pdf_files (tree_fs ''export/files'' [''ABC/paper.pdf''])
     [''export/files/ABC/paper.pdf''] blank_author_entry ''out''
   = ([Mkdir \<lparr>absolute = False, parts = [''out'', ''documents'', ''journal_articles'', ''2021'']\<rparr>],
      Inl IndexError)"
  unfolding blank_author_entry_def tree_fs_def by code_simp

section \<open>Properties of the document identifiers\<close>

lemma digits_value_str_nat: "digits_value (str_nat n) = n"
proof (induction n rule: str_nat.induct)
  case (1 n)
  show ?case
  proof (cases "n < 10")
    case True
    then show ?thesis
      by (subst str_nat.simps) (simp add: digits_value_def)
  next
    case False
    have "n mod 10 < 10" by simp
    then have m: "(of_char (char_of (48 + n mod 10 :: nat)) :: nat) = 48 + n mod 10"
      by (simp add: of_char_of)
    have "digits_value (str_nat n) = 10 * digits_value (str_nat (n div 10)) + n mod 10"
      using False m by (subst str_nat.simps) (simp add: digits_value_def)
    then show ?thesis using "1.IH" False by simp
  qed
qed

lemma str_nat_inj: "str_nat i = str_nat j \<Longrightarrow> i = j"
  by (metis digits_value_str_nat)

lemma doc_id_make_document: "doc_id (make_document i e ts ps) = assigned_id i e"
  by (simp add: doc_id_def make_document_def get_def assigned_id_def extra_fields_def map_add_def
      split: option.splits)

lemma process_entries_ids:
  "snd (process_entries fs files_dir output_dir i es) = Inr docs \<Longrightarrow>
   map doc_id docs = map (\<lambda>(k, e). assigned_id k e) (zip [i..<i + length es] es)"
proof (induction es arbitrary: i docs)
  case Nil
  then show ?case by simp
next
  case (Cons e es)
  obtain eff r where o: "find_and_organize fs files_dir output_dir e = (eff, r)"
    by (cases "find_and_organize fs files_dir output_dir e")
  obtain eff' r' where p: "process_entries fs files_dir output_dir (i + 1) es = (eff', r')"
    by (cases "process_entries fs files_dir output_dir (i + 1) es")
  from Cons.prems o p obtain organized ds where
    r: "r = Inr organized" and r': "r' = Inr ds"
    and docs: "docs = make_document i e (extract_tags_from_entry e) organized # ds"
    by (auto split: sum.splits)
  have "map doc_id ds = map (\<lambda>(k, e). assigned_id k e) (zip [i + 1..<i + 1 + length es] es)"
    using Cons.IH [of "i + 1" ds] p r' by simp
  moreover have "[i..<i + length (e # es)] = i # [i + 1..<i + 1 + length es]"
    by (subst upt_rec) simp
  ultimately show ?case using docs by (simp add: doc_id_make_document)
qed

lemma assigned_id_distinct:
  assumes "\<forall>i<length es. \<forall>j<length es. i \<noteq> j \<longrightarrow> (es ! i) ''ID'' \<noteq> None \<longrightarrow>
             (es ! i) ''ID'' \<noteq> (es ! j) ''ID''
             \<and> ((es ! j) ''ID'' = None \<longrightarrow> (es ! i) ''ID'' \<noteq> Some (''doc_'' @ str_nat j))"
    and "i < length es" "j < length es" "i \<noteq> j"
  shows "assigned_id i (es ! i) \<noteq> assigned_id j (es ! j)"
proof (cases "(es ! i) ''ID''")
  case None
  note ni = this
  show ?thesis
  proof (cases "(es ! j) ''ID''")
    case None
    then show ?thesis using ni assms(4) str_nat_inj by (auto simp: assigned_id_def)
  next
    case (Some y)
    then show ?thesis using ni assms(1) [rule_format, of j i] assms(2-4)
      by (auto simp: assigned_id_def)
  qed
next
  case (Some x)
  then show ?thesis using assms(1) [rule_format, of i j] assms(2-4)
    by (auto simp: assigned_id_def split: option.splits)
qed

lemma process_two_entries:
  assumes "find_pdf_in_files_folder (tree_fs ''export/files'' []) e1 ''export/files'' = Inr []"
    and "find_pdf_in_files_folder (tree_fs ''export/files'' []) e2 ''export/files'' = Inr []"
  shows "snd (process_entries (tree_fs ''export/files'' []) ''export/files'' ''out'' 0 [e1, e2])
   = Inr [make_document 0 e1 (extract_tags_from_entry e1) [],
          make_document 1 e2 (extract_tags_from_entry e2) []]"
proof -
  have "find_and_organize (tree_fs ''export/files'' []) ''export/files'' ''out'' e = ([], Inr [])"
    if "find_pdf_in_files_folder (tree_fs ''export/files'' []) e ''export/files'' = Inr []" for e
    using that by (simp add: find_and_organize_def organize_pdf_files_def)
  then show ?thesis using assms by simp
qed

lemma find_nothing_paper:
  "find_pdf_in_files_folder (tree_fs ''export/files'' []) paper_entry ''export/files'' = Inr []"
  unfolding paper_entry_def tree_fs_def by code_simp

lemma find_nothing_second:
  "find_pdf_in_files_folder (tree_fs ''export/files'' [])
     (paper_entry(''title'' \<mapsto> ''Net Zero Pathways, second edition'')) ''export/files'' = Inr []"
  unfolding paper_entry_def tree_fs_def by code_simp

lemma find_nothing_untitled:
  "find_pdf_in_files_folder (tree_fs ''export/files'' []) untitled_entry ''export/files'' = Inr []"
  unfolding untitled_entry_def tree_fs_def by code_simp

lemma doc_1: "''doc_'' @ str_nat 1 = ''doc_1''"
  by code_simp

text \<open>
  C7 (as stated, refuted). Two entries with the same citation key give two documents
  with the same identifier.
\<close>

theorem unique_ids_counterexample:
  "map_sum id (\<lambda>docs. (map doc_id docs, distinct (map doc_id docs)))
     (snd (process_entries (tree_fs ''export/files'' []) ''export/files'' ''out'' 0
             [paper_entry, paper_entry(''title'' \<mapsto> ''Net Zero Pathways, second edition'')]))
   = Inr ([''smith2021'', ''smith2021''], False)"
  unfolding process_two_entries [OF find_nothing_paper find_nothing_second]
  by (simp add: doc_id_make_document assigned_id_def paper_entry_def)

text \<open>
  C7 (amended). In a library built from a list of entries, the identifier of each document
  is the entry's own ID when it has one, and \<open>doc_<index>\<close> with its position in the list
  otherwise; the synthetic identifiers of different positions differ; and the identifiers
  of the library are pairwise distinct provided that the IDs of the entries are pairwise
  distinct and none of them is the synthetic identifier of an entry without ID.
\<close>

theorem document_ids:
  assumes "snd (process_entries fs files_dir output_dir 0 es) = Inr docs"
  shows "length docs = length es
    \<and> (\<forall>i<length es. doc_id (docs ! i)
          = (case (es ! i) ''ID'' of None \<Rightarrow> ''doc_'' @ str_nat i | Some x \<Rightarrow> x))
    \<and> (\<forall>i j. i \<noteq> j \<longrightarrow> ''doc_'' @ str_nat i \<noteq> ''doc_'' @ str_nat j)
    \<and> ((\<forall>i<length es. \<forall>j<length es. i \<noteq> j \<longrightarrow> (es ! i) ''ID'' \<noteq> None \<longrightarrow>
             (es ! i) ''ID'' \<noteq> (es ! j) ''ID''
             \<and> ((es ! j) ''ID'' = None \<longrightarrow> (es ! i) ''ID'' \<noteq> Some (''doc_'' @ str_nat j)))
        \<longrightarrow> distinct (map doc_id docs))"
proof -
  have ids: "map doc_id docs = map (\<lambda>(k, e). assigned_id k e) (zip [0..<0 + length es] es)"
    using assms by (rule process_entries_ids)
  then have len: "length docs = length es"
    by (metis (no_types, lifting) add_0 length_map length_zip length_upt min.idem diff_zero)
  have nth: "doc_id (docs ! i) = assigned_id i (es ! i)" if "i < length es" for i
  proof -
    have "doc_id (docs ! i) = map doc_id docs ! i" using that len by simp
    also have "\<dots> = assigned_id i (es ! i)" using that by (simp add: ids)
    finally show ?thesis .
  qed
  have inj: "\<forall>i j. i \<noteq> j \<longrightarrow> ''doc_'' @ str_nat i \<noteq> ''doc_'' @ str_nat j"
    using str_nat_inj by auto
  have dist: "distinct (map doc_id docs)"
    if h: "\<forall>i<length es. \<forall>j<length es. i \<noteq> j \<longrightarrow> (es ! i) ''ID'' \<noteq> None \<longrightarrow>
             (es ! i) ''ID'' \<noteq> (es ! j) ''ID''
             \<and> ((es ! j) ''ID'' = None \<longrightarrow> (es ! i) ''ID'' \<noteq> Some (''doc_'' @ str_nat j))"
  proof -
    have "map doc_id docs ! i \<noteq> map doc_id docs ! j"
      if "i < length es" "j < length es" "i \<noteq> j" for i j
      using assigned_id_distinct [OF h that] nth that len by simp
    then show ?thesis using len by (auto simp: distinct_conv_nth)
  qed
  show ?thesis using len nth inj dist by (simp add: assigned_id_def)
qed

theorem document_ids_witness:
  "snd (process_entries (tree_fs ''export/files'' []) ''export/files'' ''out'' 0
          [paper_entry, untitled_entry])
   = Inr [make_document 0 paper_entry (extract_tags_from_entry paper_entry) [],
          make_document 1 untitled_entry (extract_tags_from_entry untitled_entry) []]
   \<and> map doc_id [make_document 0 paper_entry (extract_tags_from_entry paper_entry) [],
                  make_document 1 untitled_entry (extract_tags_from_entry untitled_entry) []]
      = [''smith2021'', ''doc_1'']
   \<and> distinct (map doc_id
        [make_document 0 paper_entry (extract_tags_from_entry paper_entry) [],
         make_document 1 untitled_entry (extract_tags_from_entry untitled_entry) []])"
proof -
  let ?docs = "[make_document 0 paper_entry (extract_tags_from_entry paper_entry) [],
                make_document 1 untitled_entry (extract_tags_from_entry untitled_entry) []]"
  have run: "snd (process_entries (tree_fs ''export/files'' []) ''export/files'' ''out'' 0
                    [paper_entry, untitled_entry]) = Inr ?docs"
    by (rule process_two_entries [OF find_nothing_paper find_nothing_untitled])
  have ids: "map doc_id ?docs = [''smith2021'', ''doc_1'']"
    using doc_1 by (simp add: doc_id_make_document assigned_id_def paper_entry_def untitled_entry_def)
  have h: "\<forall>i<length [paper_entry, untitled_entry]. \<forall>j<length [paper_entry, untitled_entry].
             i \<noteq> j \<longrightarrow> ([paper_entry, untitled_entry] ! i) ''ID'' \<noteq> None \<longrightarrow>
             ([paper_entry, untitled_entry] ! i) ''ID'' \<noteq> ([paper_entry, untitled_entry] ! j) ''ID''
             \<and> (([paper_entry, untitled_entry] ! j) ''ID'' = None \<longrightarrow>
                  ([paper_entry, untitled_entry] ! i) ''ID'' \<noteq> Some (''doc_'' @ str_nat j))"
    using doc_1
    by (simp add: less_Suc_eq numeral_2_eq_2 paper_entry_def untitled_entry_def all_conj_distrib)
  have "distinct (map doc_id ?docs)"
    using document_ids [OF run] h by blast
  then show ?thesis using run ids by simp
qed

section \<open>Properties of the text extraction\<close>

text \<open>
  C9. When reading a PDF or an HTML file raises an exception, the extractor of that file
  catches it, prints a warning and returns the empty string; and the loop over the files
  of a document goes on with the remaining files, the failed file counting as empty text.
\<close>

theorem extraction_failure_recovered:
  "(pdf_reader env p = Inl (Exception msg) \<longrightarrow>
      extract_text_from_pdf env p
      = ([], [Read_pdf p, Print (''[WARN] Could not read PDF: '' @ p @ '' ('' @ msg @ '')'')]))
   \<and> (html_reader env p = Inl (Exception msg) \<longrightarrow>
      extract_text_from_html env p
      = ([], [Read_html p, Print (''[WARN] Could not read HTML: '' @ p @ '' ('' @ msg @ '')'')]))
   \<and> (ends_with (lower (abs_path_of rel_path)) ''.pdf''
        \<and> pdf_reader env (abs_path_of rel_path) = Inl (Exception msg) \<longrightarrow>
      fst (extract_fulltext_loop env fulltext (rel_path # rest))
      = fst (extract_fulltext_loop env (fulltext @ [CHR 0x0A]) rest))
   \<and> (\<not> ends_with (lower (abs_path_of rel_path)) ''.pdf''
        \<and> ends_with (lower (abs_path_of rel_path)) ''.html''
        \<and> html_reader env (abs_path_of rel_path) = Inl (Exception msg) \<longrightarrow>
      fst (extract_fulltext_loop env fulltext (rel_path # rest))
      = fst (extract_fulltext_loop env (fulltext @ [CHR 0x0A]) rest))"
  by (simp add: extract_text_from_pdf_def extract_text_from_html_def Let_def split: prod.splits)

lemma broken_pdf: "pdf_reader broken_readers p = Inl (Exception ''EOF marker not found'')"
  by (simp add: broken_readers_def)

lemma broken_html: "html_reader broken_readers p = Inl (Exception ''No such file or directory'')"
  by (simp add: broken_readers_def)

lemma abs_path_a1: "abs_path_of ''documents/reports/2020/a1.pdf'' = ''AIPolicies_db/documents/reports/2020/a1.pdf''"
  by code_simp

lemma abs_path_page: "abs_path_of ''documents/web_resources/2020/AI_Act.html'' = ''AIPolicies_db/documents/web_resources/2020/AI_Act.html''"
  by code_simp

lemma pdf_suffix: "ends_with (lower ''AIPolicies_db/documents/reports/2020/a1.pdf'') ''.pdf''"
  by code_simp

lemma html_suffix:
  "\<not> ends_with (lower ''AIPolicies_db/documents/web_resources/2020/AI_Act.html'') ''.pdf''
   \<and> ends_with (lower ''AIPolicies_db/documents/web_resources/2020/AI_Act.html'') ''.html''"
  by code_simp

theorem extraction_failure_recovered_witness:
  "extract_text_from_pdf broken_readers ''AIPolicies_db/documents/reports/2020/a1.pdf''
   = ([], [Read_pdf ''AIPolicies_db/documents/reports/2020/a1.pdf'',
           Print (''[WARN] Could not read PDF: '' @ ''AIPolicies_db/documents/reports/2020/a1.pdf''
                  @ '' ('' @ ''EOF marker not found'' @ '')'')])
   \<and> extract_text_from_html broken_readers ''AIPolicies_db/documents/web_resources/2020/AI_Act.html''
   = ([], [Read_html ''AIPolicies_db/documents/web_resources/2020/AI_Act.html'',
           Print (''[WARN] Could not read HTML: ''
                  @ ''AIPolicies_db/documents/web_resources/2020/AI_Act.html''
                  @ '' ('' @ ''No such file or directory'' @ '')'')])
   \<and> fst (extract_fulltext_loop broken_readers []
            [''documents/reports/2020/a1.pdf'', ''documents/web_resources/2020/AI_Act.html''])
      = [CHR 0x0A, CHR 0x0A]"
proof -
  note pdf = extraction_failure_recovered
      [where env = broken_readers and msg = "''EOF marker not found''"
         and p = "''AIPolicies_db/documents/reports/2020/a1.pdf''"
         and rel_path = "''documents/reports/2020/a1.pdf''" and fulltext = "[]"
         and rest = "[''documents/web_resources/2020/AI_Act.html'']"]
  note html = extraction_failure_recovered
      [where env = broken_readers and msg = "''No such file or directory''"
         and p = "''AIPolicies_db/documents/web_resources/2020/AI_Act.html''"
         and rel_path = "''documents/web_resources/2020/AI_Act.html''"
         and fulltext = "[] @ [CHR 0x0A]" and rest = "[]"]
  have 1: "extract_text_from_pdf broken_readers ''AIPolicies_db/documents/reports/2020/a1.pdf''
     = ([], [Read_pdf ''AIPolicies_db/documents/reports/2020/a1.pdf'',
           Print (''[WARN] Could not read PDF: '' @ ''AIPolicies_db/documents/reports/2020/a1.pdf''
                  @ '' ('' @ ''EOF marker not found'' @ '')'')])"
    by (rule pdf [THEN conjunct1, THEN mp]) (rule broken_pdf)
  have 2: "extract_text_from_html broken_readers ''AIPolicies_db/documents/web_resources/2020/AI_Act.html''
     = ([], [Read_html ''AIPolicies_db/documents/web_resources/2020/AI_Act.html'',
           Print (''[WARN] Could not read HTML: ''
                  @ ''AIPolicies_db/documents/web_resources/2020/AI_Act.html''
                  @ '' ('' @ ''No such file or directory'' @ '')'')])"
    by (rule html [THEN conjunct2, THEN conjunct1, THEN mp]) (rule broken_html)
  have 3: "fst (extract_fulltext_loop broken_readers []
                 [''documents/reports/2020/a1.pdf'', ''documents/web_resources/2020/AI_Act.html''])
           = fst (extract_fulltext_loop broken_readers ([] @ [CHR 0x0A])
                   [''documents/web_resources/2020/AI_Act.html''])"
    by (rule pdf [THEN conjunct2, THEN conjunct2, THEN conjunct1, THEN mp])
       (simp add: broken_pdf abs_path_a1 pdf_suffix)
  have 4: "fst (extract_fulltext_loop broken_readers ([] @ [CHR 0x0A])
                   [''documents/web_resources/2020/AI_Act.html''])
           = fst (extract_fulltext_loop broken_readers (([] @ [CHR 0x0A]) @ [CHR 0x0A]) [])"
    by (rule html [THEN conjunct2, THEN conjunct2, THEN conjunct2, THEN mp])
       (simp add: broken_html abs_path_page html_suffix)
  have 5: "fst (extract_fulltext_loop broken_readers (([] @ [CHR 0x0A]) @ [CHR 0x0A]) [])
           = [CHR 0x0A, CHR 0x0A]"
    by simp
  have 6: "fst (extract_fulltext_loop broken_readers []
                 [''documents/reports/2020/a1.pdf'', ''documents/web_resources/2020/AI_Act.html''])
           = [CHR 0x0A, CHR 0x0A]"
    using 3 4 5 by (rule trans [OF trans])
  show ?thesis using 1 2 6 by (intro conjI)
qed

section \<open>Properties of the classification\<close>

lemma keywords_lower: "kw \<in> set KEYWORDS \<Longrightarrow> lower kw = kw"
  unfolding KEYWORDS_def by (auto; code_simp)

lemma keywords_nonempty: "kw \<in> set KEYWORDS \<Longrightarrow> kw \<noteq> []"
  unfolding KEYWORDS_def by auto

lemma has_keyword_iff: "has_keyword (lower text) = (\<exists>kw\<in>set KEYWORDS. occurs_ci kw text)"
  by (auto simp: has_keyword_def occurs_ci_def list_ex_iff keywords_lower)

lemma has_keyword_empty: "\<not> has_keyword []"
  using keywords_nonempty by (auto simp: has_keyword_def list_ex_iff)

lemma metadata_hit_iff: "metadata_hit doc = metadata_match doc"
proof -
  have "(v \<noteq> [] \<and> has_keyword (lower v)) = (\<exists>kw\<in>set KEYWORDS. occurs_ci kw v)" for v
    using has_keyword_iff [of v] has_keyword_empty by (cases v) (auto simp: lower_def)
  then show ?thesis
    by (simp add: metadata_hit_def metadata_match_def list_ex_iff Let_def)
qed

text \<open>The extractors compute the text of a file as the specification describes it.\<close>

lemma extract_text_from_pdf_text:
  "ends_with (lower file) ''.pdf'' \<Longrightarrow>
   file_text env file = Some (fst (extract_text_from_pdf env file))"
  by (simp add: file_text_def extract_text_from_pdf_def page_text_def [abs_def]
      split: sum.splits exn.splits)

lemma extract_text_from_html_text:
  "\<not> ends_with (lower file) ''.pdf'' \<Longrightarrow> ends_with (lower file) ''.html'' \<Longrightarrow>
   file_text env file = Some (fst (extract_text_from_html env file))"
  by (simp add: file_text_def extract_text_from_html_def split: sum.splits exn.splits)

text \<open>The loop of \<open>extract_fulltext_from_files\<close> appends the full text of the files.\<close>

lemma extract_fulltext_loop_text:
  "fst (extract_fulltext_loop env fulltext paths) = fulltext @ full_text env paths"
proof (induction paths arbitrary: fulltext)
  case Nil
  then show ?case by (simp add: full_text_def)
next
  case (Cons rel_path paths)
  let ?file = "abs_path_of rel_path"
  have tail: "full_text env (rel_path # paths)
              = (case file_text env ?file of None \<Rightarrow> [] | Some t \<Rightarrow> t @ [CHR 0x0A])
                @ full_text env paths"
    by (simp add: full_text_def)
  show ?case
  proof (cases "ends_with (lower ?file) ''.pdf''")
    case True
    obtain t ev where x: "extract_text_from_pdf env ?file = (t, ev)"
      by (cases "extract_text_from_pdf env ?file")
    have "file_text env ?file = Some t"
      using extract_text_from_pdf_text [OF True, of env] x by simp
    moreover have "fst (extract_fulltext_loop env fulltext (rel_path # paths))
                   = fst (extract_fulltext_loop env (fulltext @ t @ [CHR 0x0A]) paths)"
      using True x by (simp add: Let_def split: prod.splits)
    ultimately show ?thesis using Cons.IH [of "fulltext @ t @ [CHR 0x0A]"] tail by simp
  next
    case False
    note not_pdf = this
    show ?thesis
    proof (cases "ends_with (lower ?file) ''.html''")
      case True
      obtain t ev where x: "extract_text_from_html env ?file = (t, ev)"
        by (cases "extract_text_from_html env ?file")
      have "file_text env ?file = Some t"
        using extract_text_from_html_text [OF not_pdf True, of env] x by simp
      moreover have "fst (extract_fulltext_loop env fulltext (rel_path # paths))
                     = fst (extract_fulltext_loop env (fulltext @ t @ [CHR 0x0A]) paths)"
        using not_pdf True x by (simp add: Let_def split: prod.splits)
      ultimately show ?thesis using Cons.IH [of "fulltext @ t @ [CHR 0x0A]"] tail by simp
    next
      case False
      then have "file_text env ?file = None"
        using not_pdf by (simp add: file_text_def)
      moreover have "fst (extract_fulltext_loop env fulltext (rel_path # paths))
                     = fst (extract_fulltext_loop env fulltext paths)"
        using not_pdf False by (simp add: Let_def)
      ultimately show ?thesis using Cons.IH [of fulltext] tail by simp
    qed
  qed
qed

lemma extract_fulltext_from_files_text:
  "fst (extract_fulltext_from_files env paths) = full_text env paths"
  by (simp add: extract_fulltext_from_files_def extract_fulltext_loop_text)

lemma starts_with_separator:
  "sep \<notin> set sub \<Longrightarrow> starts_with (a @ sep # b) sub = starts_with a sub"
proof (induction a arbitrary: sub)
  case Nil
  then show ?case by (cases sub) auto
next
  case (Cons c a)
  then show ?case by (cases sub) auto
qed

lemma contains_separator:
  "sep \<notin> set sub \<Longrightarrow> sub \<noteq> [] \<Longrightarrow>
   contains (a @ sep # b) sub = (contains a sub \<or> contains b sub)"
proof (induction a)
  case Nil
  then show ?case by (cases sub) auto
next
  case (Cons c a)
  have "starts_with ((c # a) @ sep # b) sub = starts_with (c # a) sub"
    using Cons.prems(1) by (rule starts_with_separator)
  then show ?case using Cons by auto
qed

lemma lower_line_break: "lower_char (CHR 0x0A) = CHR 0x0A"
  by code_simp

lemma keywords_one_line: "kw \<in> set KEYWORDS \<Longrightarrow> CHR 0x0A \<notin> set kw"
  unfolding KEYWORDS_def by auto

lemma occurs_ci_full_text:
  assumes "kw \<in> set KEYWORDS"
  shows "occurs_ci kw (full_text env paths)
         = (\<exists>rel_path\<in>set paths. case file_text env (abs_path_of rel_path) of
                                     None \<Rightarrow> False
                                   | Some t \<Rightarrow> occurs_ci kw t)"
proof (induction paths)
  case Nil
  then show ?case using keywords_nonempty [OF assms] by (simp add: full_text_def occurs_ci_def lower_def)
next
  case (Cons rel_path paths)
  have k: "lower kw = kw" "CHR 0x0A \<notin> set kw" "kw \<noteq> []"
    using assms keywords_lower keywords_one_line keywords_nonempty by auto
  show ?case
  proof (cases "file_text env (abs_path_of rel_path)")
    case None
    then show ?thesis using Cons.IH by (simp add: full_text_def)
  next
    case (Some t)
    have "full_text env (rel_path # paths) = t @ CHR 0x0A # full_text env paths"
      using Some by (simp add: full_text_def)
    then have "lower (full_text env (rel_path # paths))
               = lower t @ CHR 0x0A # lower (full_text env paths)"
      by (simp add: lower_def lower_line_break)
    then have "occurs_ci kw (full_text env (rel_path # paths))
               = (occurs_ci kw t \<or> occurs_ci kw (full_text env paths))"
      using k contains_separator [of "CHR 0x0A" kw "lower t" "lower (full_text env paths)"]
      by (simp add: occurs_ci_def)
    then show ?thesis using Cons.IH Some by simp
  qed
qed

text \<open>
  A line break closes the text of every file and no keyword has one, so a keyword occurs
  in the full text exactly when it occurs in the text of one of the files.
\<close>

lemma fulltext_match_some_file: "fulltext_match env doc = some_file_match env doc"
  using occurs_ci_full_text [of _ env "file_paths doc"]
  by (auto simp: fulltext_match_def some_file_match_def)

text \<open>
  C2. A document is classified relevant if and only if some keyword occurs, case ignored,
  in one of the four metadata fields or, when none does, in the full text of its files:
  the texts extracted from the files, concatenated with a line break after each, so that
  a keyword occurs in it exactly when it occurs in the text of one file. A match in the
  metadata classifies the document relevant with no call of a reader (the list of events
  is empty), and a document with no match in the metadata and no file is classified not
  relevant.
\<close>

theorem classification:
  "(fst (document_references_environment env doc)
      \<longleftrightarrow> metadata_match doc \<or> (\<not> metadata_match doc \<and> fulltext_match env doc))
   \<and> (metadata_match doc \<longrightarrow> document_references_environment env doc = (True, []))
   \<and> (\<not> metadata_match doc \<and> file_paths doc = []
        \<longrightarrow> document_references_environment env doc = (False, []))
   \<and> (fulltext_match env doc \<longleftrightarrow> some_file_match env doc)"
proof -
  have e: "\<not> fulltext_match env doc" if "file_paths doc = []"
    using that keywords_nonempty
    by (auto simp: fulltext_match_def full_text_def occurs_ci_def lower_def)
  have f: "has_keyword (lower (fst (extract_fulltext_from_files env (file_paths doc))))
           = fulltext_match env doc"
    by (simp add: has_keyword_iff fulltext_match_def extract_fulltext_from_files_text)
  have "(fst (document_references_environment env doc)
      \<longleftrightarrow> metadata_match doc \<or> (\<not> metadata_match doc \<and> fulltext_match env doc))
   \<and> (metadata_match doc \<longrightarrow> document_references_environment env doc = (True, []))
   \<and> (\<not> metadata_match doc \<and> file_paths doc = []
        \<longrightarrow> document_references_environment env doc = (False, []))"
    using e f
    by (auto simp: document_references_environment_def metadata_hit_iff split: prod.splits)
  then show ?thesis using fulltext_match_some_file [of env doc] by blast
qed

lemma carbon_hit: "metadata_hit carbon_doc"
  unfolding carbon_doc_def by code_simp

lemma plain_miss: "\<not> metadata_hit plain_doc"
  unfolding plain_doc_def by code_simp

lemma pdf_only_miss: "\<not> metadata_hit pdf_only_doc"
  unfolding pdf_only_doc_def by code_simp

lemma html_only_miss: "\<not> metadata_hit html_only_doc"
  unfolding html_only_doc_def by code_simp

lemma pdf_only_full_text:
  "full_text sample_readers (file_paths pdf_only_doc)
   = ''Grid planning'' @ [CHR 0x0A, CHR 0x0A] @ ''Targets for Renewable power'' @ [CHR 0x0A]
     @ ''Procurement rules for agencies'' @ [CHR 0x0A]"
  unfolding pdf_only_doc_def sample_readers_def by code_simp

lemma pdf_only_match: "fulltext_match sample_readers pdf_only_doc"
  unfolding pdf_only_doc_def sample_readers_def by code_simp

lemma html_only_no_match: "\<not> fulltext_match sample_readers html_only_doc"
  unfolding html_only_doc_def sample_readers_def by code_simp

lemma pdf_only_run:
  "document_references_environment sample_readers pdf_only_doc
   = (True, [Read_pdf ''AIPolicies_db/documents/reports/2021/c3.pdf'',
             Read_html ''AIPolicies_db/documents/reports/2021/c3.html''])"
  unfolding pdf_only_doc_def sample_readers_def by code_simp

theorem classification_witness:
  "metadata_match carbon_doc
   \<and> document_references_environment broken_readers carbon_doc = (True, [])
   \<and> \<not> metadata_match plain_doc \<and> file_paths plain_doc = []
   \<and> document_references_environment broken_readers plain_doc = (False, [])
   \<and> \<not> metadata_match pdf_only_doc \<and> fulltext_match sample_readers pdf_only_doc
   \<and> fst (document_references_environment sample_readers pdf_only_doc)
   \<and> \<not> metadata_match html_only_doc \<and> \<not> fulltext_match sample_readers html_only_doc
   \<and> \<not> fst (document_references_environment sample_readers html_only_doc)"
proof -
  have c: "metadata_match carbon_doc" using carbon_hit by (simp add: metadata_hit_iff)
  have p: "\<not> metadata_match plain_doc" using plain_miss by (simp add: metadata_hit_iff)
  have f: "file_paths plain_doc = []" by (simp add: plain_doc_def)
  have q: "\<not> metadata_match pdf_only_doc" using pdf_only_miss by (simp add: metadata_hit_iff)
  have h: "\<not> metadata_match html_only_doc" using html_only_miss by (simp add: metadata_hit_iff)
  show ?thesis
    using classification [of broken_readers carbon_doc] classification [of broken_readers plain_doc]
      classification [of sample_readers pdf_only_doc]
      classification [of sample_readers html_only_doc]
      c p f q h pdf_only_match html_only_no_match
    by simp
qed

section \<open>Properties of the counts by tag\<close>

lemma get_count_incr: "get_count (incr m t) tag = get_count m tag + (if tag = t then 1 else 0)"
  by (simp add: get_count_def incr_def)

lemma get_count_fold_incr:
  "get_count (fold (\<lambda>tag m. incr m tag) ts m) tag = get_count m tag + count_list ts tag"
  by (induction ts arbitrary: m) (auto simp: get_count_incr)

lemma dom_fold_incr: "dom (fold (\<lambda>tag m. incr m tag) ts m) = dom m \<union> set ts"
  by (induction ts arbitrary: m) (auto simp: incr_def)

lemma group_stats_loop_step:
  "fst (group_stats_loop env (a, b) (doc # docs))
   = fst (group_stats_loop env
            (if fst (document_references_environment env doc)
             then fold (\<lambda>tag m. incr m tag) (tags doc) a else a,
             fold (\<lambda>tag m. incr m tag) (tags doc) b) docs)"
  by (cases "document_references_environment env doc") (simp split: prod.splits)

lemma group_stats_loop_le:
  "get_count a tag \<le> get_count b tag \<Longrightarrow>
   get_count (fst (fst (group_stats_loop env (a, b) docs))) tag
   \<le> get_count (snd (fst (group_stats_loop env (a, b) docs))) tag"
proof (induction docs arbitrary: a b)
  case Nil
  then show ?case by simp
next
  case (Cons doc docs)
  let ?b = "fold (\<lambda>tag m. incr m tag) (tags doc) b"
  let ?a = "if fst (document_references_environment env doc)
            then fold (\<lambda>tag m. incr m tag) (tags doc) a else a"
  have "get_count ?a tag \<le> get_count ?b tag"
    using Cons.prems by (simp add: get_count_fold_incr)
  from Cons.IH [OF this] show ?case
    by (simp only: group_stats_loop_step)
qed

lemma group_stats_loop_dom:
  "dom a \<subseteq> dom b \<Longrightarrow>
   dom (fst (fst (group_stats_loop env (a, b) docs)))
   \<subseteq> dom (snd (fst (group_stats_loop env (a, b) docs)))"
proof (induction docs arbitrary: a b)
  case Nil
  then show ?case by simp
next
  case (Cons doc docs)
  let ?b = "fold (\<lambda>tag m. incr m tag) (tags doc) b"
  let ?a = "if fst (document_references_environment env doc)
            then fold (\<lambda>tag m. incr m tag) (tags doc) a else a"
  have "dom ?a \<subseteq> dom ?b"
    using Cons.prems by (auto simp: dom_fold_incr)
  from Cons.IH [OF this] show ?case
    by (simp only: group_stats_loop_step)
qed

lemma get_count_setdefault:
  "get_count (setdefault_all (m |` F) F) tag = (if tag \<in> F then get_count m tag else 0)"
  by (simp add: get_count_def setdefault_all_def restrict_map_def split: option.splits)

lemma dom_setdefault: "dom (setdefault_all (m |` F) F) = F"
  by (auto simp: setdefault_all_def restrict_map_def split: option.splits if_splits)

lemma setdefault_absent:
  "tag \<in> F \<Longrightarrow> m tag = None \<Longrightarrow> setdefault_all (m |` F) F tag = Some 0"
  by (simp add: setdefault_all_def)

text \<open>
  C6. In the two mappings of \<open>group_stats_by_tag\<close>, over any list of documents and for
  every tag, the count of relevant documents is at most the total count. After
  \<open>filter_tags\<close> the keys of both mappings are exactly the tags of the filter set, the
  inequality still holds for every tag, and a tag of the filter set that the documents do
  not carry has the count zero in both.
\<close>

theorem relevant_le_total:
  "get_count (fst (fst (group_stats_by_tag env documents))) tag
     \<le> get_count (snd (fst (group_stats_by_tag env documents))) tag
   \<and> (let filtered = filter_tags (fst (fst (group_stats_by_tag env documents)))
                        (snd (fst (group_stats_by_tag env documents))) filter_set
      in dom (fst filtered) = filter_set \<and> dom (snd filtered) = filter_set
         \<and> get_count (fst filtered) tag \<le> get_count (snd filtered) tag
         \<and> (tag \<in> filter_set \<and> snd (fst (group_stats_by_tag env documents)) tag = None
              \<longrightarrow> fst filtered tag = Some 0 \<and> snd filtered tag = Some 0))"
proof -
  have le: "get_count (fst (fst (group_stats_by_tag env documents))) tag
     \<le> get_count (snd (fst (group_stats_by_tag env documents))) tag"
    unfolding group_stats_by_tag_def by (rule group_stats_loop_le) (simp add: get_count_def)
  have "dom (fst (fst (group_stats_by_tag env documents)))
        \<subseteq> dom (snd (fst (group_stats_by_tag env documents)))"
    unfolding group_stats_by_tag_def by (rule group_stats_loop_dom) simp
  then have none: "fst (fst (group_stats_by_tag env documents)) tag = None"
    if "snd (fst (group_stats_by_tag env documents)) tag = None"
    using that by (auto simp: dom_def)
  show ?thesis
    using le none
    by (simp add: filter_tags_def Let_def get_count_setdefault dom_setdefault setdefault_absent)
qed

lemma stats_example:
  "snd (fst (group_stats_by_tag broken_readers [carbon_doc, plain_doc])) ''City'' = None
   \<and> fst (fst (group_stats_by_tag broken_readers [carbon_doc, plain_doc])) ''State'' = Some 1
   \<and> snd (fst (group_stats_by_tag broken_readers [carbon_doc, plain_doc])) ''State'' = Some 2"
  unfolding carbon_doc_def plain_doc_def broken_readers_def by code_simp

theorem relevant_le_total_witness:
  "fst (filter_tags (fst (fst (group_stats_by_tag broken_readers [carbon_doc, plain_doc])))
          (snd (fst (group_stats_by_tag broken_readers [carbon_doc, plain_doc])))
          {''State'', ''City''}) ''City'' = Some 0
   \<and> snd (filter_tags (fst (fst (group_stats_by_tag broken_readers [carbon_doc, plain_doc])))
          (snd (fst (group_stats_by_tag broken_readers [carbon_doc, plain_doc])))
          {''State'', ''City''}) ''City'' = Some 0
   \<and> get_count (fst (fst (group_stats_by_tag broken_readers [carbon_doc, plain_doc]))) ''State'' = 1
   \<and> get_count (snd (fst (group_stats_by_tag broken_readers [carbon_doc, plain_doc]))) ''State'' = 2"
proof -
  have m: "''City'' \<in> {''State'', ''City''}" by simp
  show ?thesis
    using relevant_le_total [of broken_readers "[carbon_doc, plain_doc]" "''City''"
                                "{''State'', ''City''}"] m stats_example
    by (simp add: Let_def get_count_def)
qed

end
